theory Spec2Isabelle
  imports Main "HOL-Library.Word"
begin

section \<open>Values of the Go program\<close>

text \<open>
  A \<^verbatim>\<open>[]byte\<close> is a list of bytes or the nil slice; the source tests \<^verbatim>\<open>rb == nil\<close>,
  so the nil slice (\<open>None\<close>) is kept apart from the empty one (\<open>Some []\<close>). A Go
  \<^verbatim>\<open>error\<close> is an opaque value carrying a message; the nil error is \<open>None\<close>.
  A run-time panic is a value of its own: every method returns \<open>panic + result\<close>.
\<close>

type_synonym byte = "8 word"
type_synonym bytes = "byte list option"

datatype error = Error string

datatype panic = NilDereference | InvalidPointer | CloseOfNilChannel | CloseOfClosedChannel

section \<open>InMemoryQueueStorage\<close>

text \<open>
  The queue is a singly linked list of heap nodes. Pointers are addresses (\<open>None\<close> is the
  nil pointer) into \<open>nodes\<close>, the part of the Go heap that holds the
  \<^verbatim>\<open>inMemoryQueueItem\<close> values; the type and the fields \<^verbatim>\<open>first\<close> and \<^verbatim>\<open>last\<close> are
  unexported, so only the methods below read or write these nodes. \<open>fresh\<close> is the
  address the next allocation \<^verbatim>\<open>&inMemoryQueueItem{...}\<close> returns: the collector frees
  a node only when nothing points to it, so an allocation never returns an address in use.
  The fields \<^verbatim>\<open>size\<close> and \<^verbatim>\<open>last\<close> are \<open>size_f\<close> and \<open>last_f\<close> here.

  \<^verbatim>\<open>size\<close> and \<^verbatim>\<open>MaxSize\<close> are Go \<^verbatim>\<open>int\<close>s. \<^verbatim>\<open>size\<close> counts live heap nodes of at
  least 32 bytes each, so it stays far below the largest \<^verbatim>\<open>int\<close> of the platform and
  \<^verbatim>\<open>size++\<close> never wraps; both are modelled as mathematical integers.
\<close>

type_synonym addr = nat

record inMemoryQueueItem =
  Request :: bytes
  Next :: "addr option"

datatype rwmutex = RWMutex

record InMemoryQueueStorage =
  MaxSize :: int
  lock :: "rwmutex option"
  size_f :: int
  first :: "addr option"
  last_f :: "addr option"
  nodes :: "addr \<rightharpoonup> inMemoryQueueItem"
  fresh :: addr

text \<open>The struct literal \<^verbatim>\<open>&InMemoryQueueStorage{MaxSize: k}\<close>: every other field is zero.\<close>

definition InMemoryQueueStorage_literal :: "int \<Rightarrow> InMemoryQueueStorage" where
  "InMemoryQueueStorage_literal k =
     \<lparr>MaxSize = k, lock = None, size_f = 0, first = None, last_f = None,
      nodes = Map.empty, fresh = 0\<rparr>"

text \<open>
  Every method starts with \<^verbatim>\<open>q.lock.Lock()\<close> and defers the unlock, so it runs as one
  atomic step and leaves the mutex as it found it; on a nil \<^verbatim>\<open>lock\<close> (no \<^verbatim>\<open>Init\<close>) the
  call panics.
\<close>

definition InMemoryQueueStorage_Init ::
  "InMemoryQueueStorage \<Rightarrow> panic + (error option \<times> InMemoryQueueStorage)" where
  "InMemoryQueueStorage_Init q = Inr (None, q\<lparr>lock := Some RWMutex\<rparr>)"

definition InMemoryQueueStorage_AddRequest ::
  "bytes \<Rightarrow> InMemoryQueueStorage \<Rightarrow> panic + (error option \<times> InMemoryQueueStorage)" where
  "InMemoryQueueStorage_AddRequest r q =
     (case lock q of
        None \<Rightarrow> Inl NilDereference
      | Some _ \<Rightarrow>
          if MaxSize q > 0 \<and> size_f q \<ge> MaxSize q then Inr (None, q)
          else
            let i = fresh q;
                q1 = q\<lparr>nodes := (nodes q)(i \<mapsto> \<lparr>Request = r, Next = None\<rparr>),
                       fresh := Suc i\<rparr>
            in (case first q1 of
                  None \<Rightarrow>
                    Inr (None, q1\<lparr>first := Some i, last_f := Some i,
                                  size_f := size_f q1 + 1\<rparr>)
                | Some _ \<Rightarrow>
                    (case last_f q1 of
                       None \<Rightarrow> Inl NilDereference
                     | Some l \<Rightarrow>
                         (case nodes q1 l of
                            None \<Rightarrow> Inl InvalidPointer
                          | Some n \<Rightarrow>
                              Inr (None, q1\<lparr>nodes := (nodes q1)(l \<mapsto> n\<lparr>Next := Some i\<rparr>),
                                            last_f := Some i,
                                            size_f := size_f q1 + 1\<rparr>)))))"

definition InMemoryQueueStorage_GetRequest ::
  "InMemoryQueueStorage \<Rightarrow> panic + ((bytes \<times> error option) \<times> InMemoryQueueStorage)" where
  "InMemoryQueueStorage_GetRequest q =
     (case lock q of
        None \<Rightarrow> Inl NilDereference
      | Some _ \<Rightarrow>
          if size_f q = 0 then Inr ((None, None), q)
          else
            (case first q of
               None \<Rightarrow> Inl NilDereference
             | Some a \<Rightarrow>
                 (case nodes q a of
                    None \<Rightarrow> Inl InvalidPointer
                  | Some n \<Rightarrow>
                      Inr ((Request n, None),
                           q\<lparr>first := Next n, size_f := size_f q - 1\<rparr>))))"

definition InMemoryQueueStorage_QueueSize ::
  "InMemoryQueueStorage \<Rightarrow> panic + ((int \<times> error option) \<times> InMemoryQueueStorage)" where
  "InMemoryQueueStorage_QueueSize q =
     (case lock q of
        None \<Rightarrow> Inl NilDereference
      | Some _ \<Rightarrow> Inr ((size_f q, None), q))"

text \<open>The storage \<^verbatim>\<open>New\<close> and the tests start from: the literal, then \<^verbatim>\<open>Init\<close>.\<close>

definition new_storage :: "int \<Rightarrow> InMemoryQueueStorage" where
  "new_storage k = (InMemoryQueueStorage_literal k)\<lparr>lock := Some RWMutex\<rparr>"

section \<open>Sequences of calls\<close>

text \<open>
  Drivers for the claims: \<open>add_all\<close> calls \<^verbatim>\<open>AddRequest\<close> once per payload and collects the
  returned errors, \<open>get_n\<close> calls \<^verbatim>\<open>GetRequest\<close> \<open>n\<close> times and collects the results, and
  \<open>run\<close> performs any sequence of the two calls and logs, for each call, the branch of
  the source it took: an \<^verbatim>\<open>AddRequest\<close> is \<open>Discarded\<close> when the guard of its capacity
  check holds and \<open>Appended\<close> otherwise, a \<^verbatim>\<open>GetRequest\<close> is \<open>NoItem\<close> when \<^verbatim>\<open>size == 0\<close>
  and \<open>Returned\<close> with the payload otherwise. A panic ends the sequence.
\<close>

fun add_all ::
  "bytes list \<Rightarrow> InMemoryQueueStorage \<Rightarrow> panic + (error option list \<times> InMemoryQueueStorage)" where
  "add_all [] q = Inr ([], q)"
| "add_all (r # rs) q =
     (case InMemoryQueueStorage_AddRequest r q of
        Inl p \<Rightarrow> Inl p
      | Inr (e, q') \<Rightarrow>
          (case add_all rs q' of
             Inl p \<Rightarrow> Inl p
           | Inr (es, q'') \<Rightarrow> Inr (e # es, q'')))"

fun get_n ::
  "nat \<Rightarrow> InMemoryQueueStorage \<Rightarrow> panic + ((bytes \<times> error option) list \<times> InMemoryQueueStorage)" where
  "get_n 0 q = Inr ([], q)"
| "get_n (Suc n) q =
     (case InMemoryQueueStorage_GetRequest q of
        Inl p \<Rightarrow> Inl p
      | Inr (x, q') \<Rightarrow>
          (case get_n n q' of
             Inl p \<Rightarrow> Inl p
           | Inr (xs, q'') \<Rightarrow> Inr (x # xs, q'')))"

datatype op = Add bytes | Get

datatype event = Appended | Discarded | Returned bytes | NoItem

fun run ::
  "op list \<Rightarrow> InMemoryQueueStorage \<Rightarrow> panic + (event list \<times> InMemoryQueueStorage)" where
  "run [] q = Inr ([], q)"
| "run (Add r # ops) q =
     (case InMemoryQueueStorage_AddRequest r q of
        Inl p \<Rightarrow> Inl p
      | Inr (e, q') \<Rightarrow>
          (case run ops q' of
             Inl p \<Rightarrow> Inl p
           | Inr (evs, q'') \<Rightarrow>
               Inr ((if MaxSize q > 0 \<and> size_f q \<ge> MaxSize q then Discarded else Appended)
                    # evs, q'')))"
| "run (Get # ops) q =
     (case InMemoryQueueStorage_GetRequest q of
        Inl p \<Rightarrow> Inl p
      | Inr ((rb, e), q') \<Rightarrow>
          (case run ops q' of
             Inl p \<Rightarrow> Inl p
           | Inr (evs, q'') \<Rightarrow>
               Inr ((if size_f q = 0 then NoItem else Returned rb) # evs, q'')))"

fun is_Returned :: "event \<Rightarrow> bool" where
  "is_Returned (Returned _) = True"
| "is_Returned _ = False"

definition appended :: "event list \<Rightarrow> int" where
  "appended evs = int (length (filter (\<lambda>e. e = Appended) evs))"

definition returned :: "event list \<Rightarrow> int" where
  "returned evs = int (length (filter is_Returned evs))"

section \<open>What the linked list holds\<close>

text \<open>
  \<open>contents\<close> reads the payloads off the heap: it follows \<^verbatim>\<open>Next\<close> from \<^verbatim>\<open>first\<close> for
  \<^verbatim>\<open>size\<close> nodes. \<open>chain h p xs\<close> says that the nodes at the addresses of \<open>xs\<close>, in this
  order and with these payloads, are linked from \<open>p\<close> to nil. \<open>wf q xs\<close> is the
  representation invariant of the storage: the lock is allocated, \<^verbatim>\<open>first\<close> starts the
  chain \<open>xs\<close> of distinct nodes, \<^verbatim>\<open>size\<close> is its length, \<^verbatim>\<open>last\<close> is its last node when
  there is one (when the list is empty \<^verbatim>\<open>last\<close> may still point to the node dequeued
  last), and every node was allocated before \<open>fresh\<close>. \<open>holds q ps\<close> forgets the addresses.
\<close>

fun walk :: "(addr \<rightharpoonup> inMemoryQueueItem) \<Rightarrow> addr option \<Rightarrow> nat \<Rightarrow> bytes list" where
  "walk h p 0 = []"
| "walk h None (Suc n) = []"
| "walk h (Some a) (Suc n) =
     (case h a of None \<Rightarrow> [] | Some it \<Rightarrow> Request it # walk h (Next it) n)"

definition contents :: "InMemoryQueueStorage \<Rightarrow> bytes list" where
  "contents q = walk (nodes q) (first q) (nat (size_f q))"

fun chain :: "(addr \<rightharpoonup> inMemoryQueueItem) \<Rightarrow> addr option \<Rightarrow> (addr \<times> bytes) list \<Rightarrow> bool" where
  "chain h p [] = (p = None)"
| "chain h p ((a, r) # xs) =
     (p = Some a \<and>
      (case h a of None \<Rightarrow> False | Some n \<Rightarrow> Request n = r \<and> chain h (Next n) xs))"

definition wf :: "InMemoryQueueStorage \<Rightarrow> (addr \<times> bytes) list \<Rightarrow> bool" where
  "wf q xs \<longleftrightarrow>
     lock q \<noteq> None \<and> chain (nodes q) (first q) xs \<and> distinct (map fst xs) \<and>
     size_f q = int (length xs) \<and> (xs \<noteq> [] \<longrightarrow> last_f q = Some (fst (last xs))) \<and>
     (\<forall>a \<in> fst ` set xs. a < fresh q)"

definition holds :: "InMemoryQueueStorage \<Rightarrow> bytes list \<Rightarrow> bool" where
  "holds q ps \<longleftrightarrow> (\<exists>xs. wf q xs \<and> map snd xs = ps)"

text \<open>
  What a storage of capacity \<open>k\<close> that holds \<open>n\<close> payloads keeps of the further payloads
  \<open>rs\<close>: all of them when \<open>k \<le> 0\<close>, the first \<open>k - n\<close> otherwise.
\<close>

definition accepted :: "int \<Rightarrow> nat \<Rightarrow> bytes list \<Rightarrow> bytes list" where
  "accepted k n rs = (if k > 0 then take (nat k - n) rs else rs)"

section \<open>The Storage interface\<close>

text \<open>
  A value of the interface \<^verbatim>\<open>Storage\<close> is either the package's own
  \<^verbatim>\<open>*InMemoryQueueStorage\<close> or a backend defined elsewhere: its four methods and its
  state, of some type \<open>'s\<close>. A method call dispatches on the two cases. A backend may
  return any error with any value and may panic.
\<close>

record 's Storage_methods =
  m_Init :: "'s \<Rightarrow> panic + (error option \<times> 's)"
  m_AddRequest :: "bytes \<Rightarrow> 's \<Rightarrow> panic + (error option \<times> 's)"
  m_GetRequest :: "'s \<Rightarrow> panic + ((bytes \<times> error option) \<times> 's)"
  m_QueueSize :: "'s \<Rightarrow> panic + ((int \<times> error option) \<times> 's)"

datatype 's Storage = InMemory InMemoryQueueStorage | External "'s Storage_methods" 's

definition returning :: "('a \<Rightarrow> 'b) \<Rightarrow> panic + ('r \<times> 'a) \<Rightarrow> panic + ('r \<times> 'b)" where
  "returning f x = (case x of Inl p \<Rightarrow> Inl p | Inr (r, a) \<Rightarrow> Inr (r, f a))"

definition Storage_Init :: "'s Storage \<Rightarrow> panic + (error option \<times> 's Storage)" where
  "Storage_Init s =
     (case s of
        InMemory q \<Rightarrow> returning InMemory (InMemoryQueueStorage_Init q)
      | External m x \<Rightarrow> returning (External m) (m_Init m x))"

definition Storage_AddRequest ::
  "bytes \<Rightarrow> 's Storage \<Rightarrow> panic + (error option \<times> 's Storage)" where
  "Storage_AddRequest r s =
     (case s of
        InMemory q \<Rightarrow> returning InMemory (InMemoryQueueStorage_AddRequest r q)
      | External m x \<Rightarrow> returning (External m) (m_AddRequest m r x))"

definition Storage_GetRequest ::
  "'s Storage \<Rightarrow> panic + ((bytes \<times> error option) \<times> 's Storage)" where
  "Storage_GetRequest s =
     (case s of
        InMemory q \<Rightarrow> returning InMemory (InMemoryQueueStorage_GetRequest q)
      | External m x \<Rightarrow> returning (External m) (m_GetRequest m x))"

definition Storage_QueueSize ::
  "'s Storage \<Rightarrow> panic + ((int \<times> error option) \<times> 's Storage)" where
  "Storage_QueueSize s =
     (case s of
        InMemory q \<Rightarrow> returning InMemory (InMemoryQueueStorage_QueueSize q)
      | External m x \<Rightarrow> returning (External m) (m_QueueSize m x))"

text \<open>
  A backend that is out of service: \<^verbatim>\<open>Init\<close> fails, and \<^verbatim>\<open>QueueSize\<close> reports the last
  count it knew, 5, together with an error.
\<close>

definition unavailable :: "unit Storage_methods" where
  "unavailable =
     \<lparr>m_Init = (\<lambda>s. Inr (Some (Error ''unavailable''), s)),
      m_AddRequest = (\<lambda>r s. Inr (Some (Error ''unavailable''), s)),
      m_GetRequest = (\<lambda>s. Inr ((None, Some (Error ''unavailable'')), s)),
      m_QueueSize = (\<lambda>s. Inr ((5, Some (Error ''unavailable'')), s))\<rparr>"

section \<open>Queue\<close>

text \<open>
  \<^verbatim>\<open>requestsOut\<close> is an unbuffered channel: it never stores a request, so its state is
  whether it is closed; \<open>None\<close> is the nil channel of a zero \<^verbatim>\<open>Queue\<close>.
  \<^verbatim>\<open>activeThreadCount\<close> is an \<^verbatim>\<open>int32\<close>, a 32-bit word that wraps. Of a
  \<^verbatim>\<open>colly.Request\<close> the queue sets the fields \<^verbatim>\<open>URL\<close> and \<^verbatim>\<open>Method\<close> only.

  \<^verbatim>\<open>url.Parse\<close>, \<^verbatim>\<open>Request.Marshal\<close> and \<^verbatim>\<open>Collector.UnmarshalRequest\<close> are not part of
  this package: the functions that call them take them as parameters, each returning
  the pair of a value and an error as in Go.
\<close>

record chan =
  closed :: bool

record 's Queue =
  Threads :: int
  storage :: "'s Storage"
  activeThreadCount :: "32 word"
  requestsOut :: "chan option"

record 'u colly_Request =
  URL :: "'u option"
  Method :: string

definition New :: "int \<Rightarrow> 's Storage option \<Rightarrow> panic + ('s Queue option \<times> error option)" where
  "New threads s =
     (let s1 = (case s of
                  None \<Rightarrow> InMemory (InMemoryQueueStorage_literal 100000)
                | Some s' \<Rightarrow> s')
      in case Storage_Init s1 of
           Inl p \<Rightarrow> Inl p
         | Inr (Some err, _) \<Rightarrow> Inr (None, Some err)
         | Inr (None, s2) \<Rightarrow>
             Inr (Some \<lparr>Threads = threads, storage = s2, activeThreadCount = 0,
                        requestsOut = Some \<lparr>closed = False\<rparr>\<rparr>, None))"

definition Size :: "'s Queue \<Rightarrow> panic + ((int \<times> error option) \<times> 's Queue)" where
  "Size q = returning (\<lambda>s. q\<lparr>storage := s\<rparr>) (Storage_QueueSize (storage q))"

definition IsEmpty :: "'s Queue \<Rightarrow> panic + (bool \<times> 's Queue)" where
  "IsEmpty q =
     (case Size q of
        Inl p \<Rightarrow> Inl p
      | Inr ((s, _), q') \<Rightarrow> Inr (s = 0, q'))"

definition AddURL ::
  "(string \<Rightarrow> 'u option \<times> error option) \<Rightarrow> ('u colly_Request \<Rightarrow> bytes \<times> error option) \<Rightarrow>
   string \<Rightarrow> 's Queue \<Rightarrow> panic + (error option \<times> 's Queue)" where
  "AddURL url_Parse Marshal url q =
     (case url_Parse url of
        (u, Some err) \<Rightarrow> Inr (Some err, q)
      | (u, None) \<Rightarrow>
          let r = \<lparr>URL = u, Method = ''GET''\<rparr>
          in (case Marshal r of
                (d, Some err) \<Rightarrow> Inr (Some err, q)
              | (d, None) \<Rightarrow>
                  returning (\<lambda>s. q\<lparr>storage := s\<rparr>) (Storage_AddRequest d (storage q))))"

definition AddRequest ::
  "('u colly_Request \<Rightarrow> bytes \<times> error option) \<Rightarrow> 'u colly_Request \<Rightarrow> 's Queue \<Rightarrow>
   panic + (error option \<times> 's Queue)" where
  "AddRequest Marshal r q =
     (case Marshal r of
        (d, Some err) \<Rightarrow> Inr (Some err, q)
      | (d, None) \<Rightarrow>
          returning (\<lambda>s. q\<lparr>storage := s\<rparr>) (Storage_AddRequest d (storage q)))"

definition finish :: "'s Queue \<Rightarrow> panic + 's Queue" where
  "finish q =
     (case requestsOut q of
        None \<Rightarrow> Inl CloseOfNilChannel
      | Some ch \<Rightarrow>
          if closed ch then Inl CloseOfClosedChannel
          else Inr (q\<lparr>requestsOut := Some (ch\<lparr>closed := True\<rparr>)\<rparr>))"

section \<open>Run\<close>

text \<open>
  \<^verbatim>\<open>Run\<close> starts \<^verbatim>\<open>Threads\<close> worker goroutines and one dispatcher goroutine and waits for
  all of them. Its executions are the interleavings of their steps, one step per access
  to what they share: the storage (each method is atomic under its lock), the counter
  and the channel. A state records where each goroutine stands.

  A worker: \<open>W_Start\<close> before \<^verbatim>\<open>atomic.AddInt32(&q.activeThreadCount, 1)\<close>; \<open>W_Range\<close> at
  the receive of \<^verbatim>\<open>for r := range q.requestsOut\<close>; \<open>W_Do r\<close> before \<^verbatim>\<open>r.Do()\<close>;
  \<open>W_After\<close> after the loop, before \<^verbatim>\<open>atomic.AddInt32(&q.activeThreadCount, -1)\<close>;
  \<open>W_Exit\<close> returned.

  The dispatcher: \<open>D_Loop\<close> before \<^verbatim>\<open>q.IsEmpty()\<close>; \<open>D_Empty\<close> before the test
  \<^verbatim>\<open>q.activeThreadCount == 0\<close>; \<open>D_Finish\<close> before \<^verbatim>\<open>q.finish()\<close>; \<open>D_Get\<close> before
  \<^verbatim>\<open>s.GetRequest()\<close>; \<open>D_Send r\<close> blocked in \<^verbatim>\<open>q.requestsOut <- r\<close>; \<open>D_Exit\<close> returned;
  \<open>D_Panic\<close> a panic, which ends the program.

  The channel is unbuffered, so a send and a receive happen together: the step belongs
  to the receiving worker and moves the dispatcher on as well, and the dispatcher in
  \<open>D_Send\<close> has no step of its own. A receive on the open channel with no sender, or on
  a nil channel, blocks: the step leaves the state as it is. The test
  \<^verbatim>\<open>q.activeThreadCount == 0\<close> reads the counter without synchronisation; the model
  gives it the current value. \<^verbatim>\<open>r.Do()\<close> belongs to the executor: here it enqueues
  nothing, and the step records the request in \<open>executed\<close>.

  A schedule is the list of goroutines in the order in which they take their steps.
  \<^verbatim>\<open>Run\<close> returns (\<^verbatim>\<open>wg.Wait()\<close> ends) when every goroutine has returned.
\<close>

datatype 'r worker_pc = W_Start | W_Range | W_Do 'r | W_After | W_Exit

datatype 'r dispatcher_pc =
  D_Loop | D_Empty | D_Finish | D_Get | D_Send 'r | D_Exit | D_Panic panic

record ('s, 'u) Run_state =
  queue :: "'s Queue"
  workers :: "'u colly_Request worker_pc list"
  dispatcher :: "'u colly_Request dispatcher_pc"
  executed :: "'u colly_Request list"

datatype goroutine = Dispatcher | Worker nat

text \<open>\<^verbatim>\<open>t := make([]byte, len(rb)); copy(t, rb)\<close>: a slice that is not nil, with the bytes of \<^verbatim>\<open>rb\<close>.\<close>

definition copy_slice :: "bytes \<Rightarrow> bytes" where
  "copy_slice rb = Some (case rb of None \<Rightarrow> [] | Some bs \<Rightarrow> bs)"

definition worker_step :: "nat \<Rightarrow> ('s, 'u) Run_state \<Rightarrow> ('s, 'u) Run_state" where
  "worker_step i s =
     (if i < length (workers s) then
        (case workers s ! i of
           W_Start \<Rightarrow>
             s\<lparr>queue := (queue s)\<lparr>activeThreadCount := activeThreadCount (queue s) + 1\<rparr>,
               workers := (workers s)[i := W_Range]\<rparr>
         | W_Range \<Rightarrow>
             (case requestsOut (queue s) of
                None \<Rightarrow> s
              | Some ch \<Rightarrow>
                  if closed ch then s\<lparr>workers := (workers s)[i := W_After]\<rparr>
                  else
                    (case dispatcher s of
                       D_Send r \<Rightarrow>
                         s\<lparr>workers := (workers s)[i := W_Do r], dispatcher := D_Loop\<rparr>
                     | _ \<Rightarrow> s))
         | W_Do r \<Rightarrow>
             s\<lparr>executed := executed s @ [r], workers := (workers s)[i := W_Range]\<rparr>
         | W_After \<Rightarrow>
             s\<lparr>queue := (queue s)\<lparr>activeThreadCount := activeThreadCount (queue s) - 1\<rparr>,
               workers := (workers s)[i := W_Exit]\<rparr>
         | W_Exit \<Rightarrow> s)
      else s)"

definition dispatcher_step ::
  "(bytes \<Rightarrow> 'u colly_Request option \<times> error option) \<Rightarrow>
   ('s, 'u) Run_state \<Rightarrow> ('s, 'u) Run_state" where
  "dispatcher_step UnmarshalRequest s =
     (case dispatcher s of
        D_Loop \<Rightarrow>
          (case IsEmpty (queue s) of
             Inl p \<Rightarrow> s\<lparr>dispatcher := D_Panic p\<rparr>
           | Inr (b, q') \<Rightarrow> s\<lparr>queue := q', dispatcher := (if b then D_Empty else D_Get)\<rparr>)
      | D_Empty \<Rightarrow>
          if activeThreadCount (queue s) = 0 then s\<lparr>dispatcher := D_Finish\<rparr>
          else s\<lparr>dispatcher := D_Loop\<rparr>
      | D_Finish \<Rightarrow>
          (case finish (queue s) of
             Inl p \<Rightarrow> s\<lparr>dispatcher := D_Panic p\<rparr>
           | Inr q' \<Rightarrow> s\<lparr>queue := q', dispatcher := D_Exit\<rparr>)
      | D_Get \<Rightarrow>
          (case Storage_GetRequest (storage (queue s)) of
             Inl p \<Rightarrow> s\<lparr>dispatcher := D_Panic p\<rparr>
           | Inr ((rb, err), st') \<Rightarrow>
               let s1 = s\<lparr>queue := (queue s)\<lparr>storage := st'\<rparr>\<rparr>
               in if err \<noteq> None \<or> rb = None then s1\<lparr>dispatcher := D_Exit\<rparr>
                  else
                    (case UnmarshalRequest (copy_slice rb) of
                       (Some r, None) \<Rightarrow> s1\<lparr>dispatcher := D_Send r\<rparr>
                     | _ \<Rightarrow> s1\<lparr>dispatcher := D_Loop\<rparr>))
      | D_Send r \<Rightarrow> s
      | D_Exit \<Rightarrow> s
      | D_Panic p \<Rightarrow> s)"

fun crashed :: "'r dispatcher_pc \<Rightarrow> bool" where
  "crashed (D_Panic p) = True"
| "crashed _ = False"

fun Run_step ::
  "(bytes \<Rightarrow> 'u colly_Request option \<times> error option) \<Rightarrow> goroutine \<Rightarrow>
   ('s, 'u) Run_state \<Rightarrow> ('s, 'u) Run_state" where
  "Run_step UnmarshalRequest Dispatcher s =
     (if crashed (dispatcher s) then s else dispatcher_step UnmarshalRequest s)"
| "Run_step UnmarshalRequest (Worker i) s =
     (if crashed (dispatcher s) then s else worker_step i s)"

definition Run_exec ::
  "(bytes \<Rightarrow> 'u colly_Request option \<times> error option) \<Rightarrow> goroutine list \<Rightarrow>
   ('s, 'u) Run_state \<Rightarrow> ('s, 'u) Run_state" where
  "Run_exec UnmarshalRequest sched s = fold (Run_step UnmarshalRequest) sched s"

definition Run_init :: "'s Queue \<Rightarrow> ('s, 'u) Run_state" where
  "Run_init q =
     \<lparr>queue = q, workers = replicate (nat (Threads q)) W_Start, dispatcher = D_Loop,
      executed = []\<rparr>"

definition Run_returned :: "('s, 'u) Run_state \<Rightarrow> bool" where
  "Run_returned s \<longleftrightarrow> dispatcher s = D_Exit \<and> list_all (\<lambda>w. w = W_Exit) (workers s)"

text \<open>
  For the invariant of \<^verbatim>\<open>Run\<close>: a worker has \<open>started\<close> when it has incremented the
  counter and not left its loop, and is \<open>alive\<close> until it leaves the loop. A payload is
  \<open>decodable\<close> when it is not nil and \<^verbatim>\<open>UnmarshalRequest\<close> returns a request and no error
  for its copy. \<open>spinning\<close> describes every state of a run that began with a backlog of
  decodable payloads: the channel is open, no worker has left its loop, the counter is
  the number of started workers, and once the backlog is empty and nothing is being
  handed over some worker has started.
\<close>

fun started :: "'r worker_pc \<Rightarrow> bool" where
  "started W_Range = True"
| "started (W_Do r) = True"
| "started _ = False"

fun alive :: "'r worker_pc \<Rightarrow> bool" where
  "alive W_After = False"
| "alive W_Exit = False"
| "alive _ = True"

definition decodable ::
  "(bytes \<Rightarrow> 'u colly_Request option \<times> error option) \<Rightarrow> bytes \<Rightarrow> bool" where
  "decodable UnmarshalRequest p \<longleftrightarrow>
     p \<noteq> None \<and> (\<exists>r. UnmarshalRequest (copy_slice p) = (Some r, None))"

definition spinning ::
  "(bytes \<Rightarrow> 'u colly_Request option \<times> error option) \<Rightarrow> ('s, 'u) Run_state \<Rightarrow> bool" where
  "spinning UnmarshalRequest s \<longleftrightarrow>
     (\<exists>st ps. storage (queue s) = InMemory st \<and> holds st ps \<and>
        (\<forall>p \<in> set ps. decodable UnmarshalRequest p) \<and>
        (case dispatcher s of
           D_Loop \<Rightarrow> ps = [] \<longrightarrow> (\<exists>w \<in> set (workers s). started w)
         | D_Empty \<Rightarrow> \<exists>w \<in> set (workers s). started w
         | D_Get \<Rightarrow> ps \<noteq> []
         | D_Send r \<Rightarrow> True
         | _ \<Rightarrow> False)) \<and>
     requestsOut (queue s) = Some \<lparr>closed = False\<rparr> \<and>
     (\<forall>w \<in> set (workers s). alive w) \<and>
     activeThreadCount (queue s) = of_nat (length (filter started (workers s))) \<and>
     length (workers s) < 2 ^ 32"

section \<open>The representation invariant\<close>

lemma chain_upd_other:
  "a \<notin> fst ` set xs \<Longrightarrow> chain (h(a \<mapsto> n)) p xs = chain h p xs"
  by (induction xs arbitrary: p) (auto split: option.splits)

lemma chain_snoc:
  assumes "chain h p (xs @ [(l, r)])" and "distinct (map fst (xs @ [(l, r)]))"
    and "h l = Some n" and "h i = Some \<lparr>Request = r', Next = None\<rparr>"
    and "i \<notin> fst ` set (xs @ [(l, r)])"
  shows "chain (h(l \<mapsto> n\<lparr>Next := Some i\<rparr>)) p (xs @ [(l, r), (i, r')])"
  using assms
proof (induction xs arbitrary: p)
  case Nil
  then show ?case by (auto split: option.splits)
next
  case (Cons x xs)
  then show ?case by (cases x) (auto split: option.splits)
qed

lemma chain_walk: "chain h p xs \<Longrightarrow> walk h p (length xs) = map snd xs"
  by (induction xs arbitrary: p) (auto split: option.splits)

lemma wf_contents: "wf q xs \<Longrightarrow> contents q = map snd xs"
  by (simp add: wf_def contents_def chain_walk)

lemma wf_new: "wf (new_storage k) []"
  by (simp add: wf_def new_storage_def InMemoryQueueStorage_literal_def)

lemma wf_first: "wf q xs \<Longrightarrow> (first q = None) = (xs = [])"
  by (cases xs) (auto simp: wf_def)

lemma wf_Add_full:
  "wf q xs \<Longrightarrow> MaxSize q > 0 \<and> size_f q \<ge> MaxSize q \<Longrightarrow>
   InMemoryQueueStorage_AddRequest r q = Inr (None, q)"
  by (auto simp: wf_def InMemoryQueueStorage_AddRequest_def)

lemma chain_last_cell:
  "chain h p (ys @ [(l, r)]) \<Longrightarrow> \<exists>n. h l = Some n"
  by (induction ys arbitrary: p) (auto split: option.splits)

lemma wf_Add:
  assumes "wf q xs" and "\<not> (MaxSize q > 0 \<and> size_f q \<ge> MaxSize q)"
  shows "\<exists>q'. InMemoryQueueStorage_AddRequest r q = Inr (None, q') \<and>
           wf q' (xs @ [(fresh q, r)]) \<and> MaxSize q' = MaxSize q"
proof (cases xs rule: rev_cases)
  case Nil
  with assms show ?thesis
    by (auto simp: wf_def InMemoryQueueStorage_AddRequest_def Let_def)
next
  case (snoc ys y)
  obtain l r0 where y: "y = (l, r0)" by (cases y)
  let ?i = "fresh q"
  let ?h = "(nodes q)(?i \<mapsto> \<lparr>Request = r, Next = None\<rparr>)"
  from assms(1) snoc y have ch: "chain (nodes q) (first q) (ys @ [(l, r0)])"
    and di: "distinct (map fst (ys @ [(l, r0)]))"
    and la: "last_f q = Some l" and lk: "lock q \<noteq> None"
    and fr: "\<forall>a \<in> fst ` set (ys @ [(l, r0)]). a < fresh q"
    and sz: "size_f q = int (length (ys @ [(l, r0)]))"
    by (auto simp: wf_def)
  from fr have nin: "?i \<notin> fst ` set (ys @ [(l, r0)])" by auto
  then have li: "l \<noteq> ?i" by auto
  from ch obtain n where n: "nodes q l = Some n"
    using chain_last_cell by blast
  have ch1: "chain ?h (first q) (ys @ [(l, r0)])"
    using ch chain_upd_other [OF nin] by blast
  have hl: "?h l = Some n" using n li by simp
  have hi: "?h ?i = Some \<lparr>Request = r, Next = None\<rparr>" by simp
  have ch2: "chain (?h(l \<mapsto> n\<lparr>Next := Some ?i\<rparr>)) (first q) (ys @ [(l, r0), (?i, r)])"
    by (rule chain_snoc [OF ch1 di hl hi nin])
  from ch have fq: "first q \<noteq> None" by (cases ys) auto
  let ?q' = "q\<lparr>nodes := ?h(l \<mapsto> n\<lparr>Next := Some ?i\<rparr>), fresh := Suc ?i,
               last_f := Some ?i, size_f := size_f q + 1\<rparr>"
  have eq: "InMemoryQueueStorage_AddRequest r q = Inr (None, ?q')"
    using assms(2) lk fq la hl
    by (auto simp: InMemoryQueueStorage_AddRequest_def Let_def)
  have "wf ?q' (xs @ [(fresh q, r)])"
    using ch2 di nin lk sz fr snoc y
    by (auto simp: wf_def less_Suc_eq)
  with eq show ?thesis by auto
qed

lemma wf_Get:
  assumes "wf q ((a, r) # xs)"
  shows "\<exists>q'. InMemoryQueueStorage_GetRequest q = Inr ((r, None), q') \<and> wf q' xs \<and>
           MaxSize q' = MaxSize q"
proof -
  from assms obtain n where n: "nodes q a = Some n" "Request n = r"
      "chain (nodes q) (Next n) xs" and f: "first q = Some a"
    by (auto simp: wf_def split: option.splits)
  let ?q' = "q\<lparr>first := Next n, size_f := size_f q - 1\<rparr>"
  have eq: "InMemoryQueueStorage_GetRequest q = Inr ((r, None), ?q')"
    using assms n f by (auto simp: wf_def InMemoryQueueStorage_GetRequest_def)
  have "wf ?q' xs"
    using assms n by (auto simp: wf_def)
  with eq show ?thesis by auto
qed

lemma wf_Get_empty:
  "wf q [] \<Longrightarrow> InMemoryQueueStorage_GetRequest q = Inr ((None, None), q)"
  by (auto simp: wf_def InMemoryQueueStorage_GetRequest_def)

lemma wf_QueueSize:
  "wf q xs \<Longrightarrow> InMemoryQueueStorage_QueueSize q = Inr ((int (length xs), None), q)"
  by (auto simp: wf_def InMemoryQueueStorage_QueueSize_def)

lemma MaxSize_new: "MaxSize (new_storage k) = k"
  by (simp add: new_storage_def InMemoryQueueStorage_literal_def)

lemma holds_new: "holds (new_storage k) []"
  using wf_new by (auto simp: holds_def)

lemma holds_size: "holds q ps \<Longrightarrow> size_f q = int (length ps)"
  by (auto simp: holds_def wf_def)

lemma holds_lock: "holds q ps \<Longrightarrow> lock q \<noteq> None"
  by (auto simp: holds_def wf_def)

lemma holds_first: "holds q ps \<Longrightarrow> (first q = None) = (ps = [])"
  by (auto simp: holds_def wf_first)

lemma holds_contents: "holds q ps \<Longrightarrow> contents q = ps"
  by (auto simp: holds_def wf_contents)

lemma holds_QueueSize:
  "holds q ps \<Longrightarrow> InMemoryQueueStorage_QueueSize q = Inr ((int (length ps), None), q)"
  using wf_QueueSize by (fastforce simp: holds_def)

lemma holds_Add_full:
  "holds q ps \<Longrightarrow> MaxSize q > 0 \<and> size_f q \<ge> MaxSize q \<Longrightarrow>
   InMemoryQueueStorage_AddRequest r q = Inr (None, q)"
  using wf_Add_full by (auto simp: holds_def)

lemma holds_Add:
  assumes "holds q ps" and "\<not> (MaxSize q > 0 \<and> size_f q \<ge> MaxSize q)"
  shows "\<exists>q'. InMemoryQueueStorage_AddRequest r q = Inr (None, q') \<and>
           holds q' (ps @ [r]) \<and> MaxSize q' = MaxSize q"
proof -
  from assms(1) obtain xs where xs: "wf q xs" "map snd xs = ps"
    by (auto simp: holds_def)
  from wf_Add [OF xs(1) assms(2), of r] obtain q' where
    q': "InMemoryQueueStorage_AddRequest r q = Inr (None, q')"
      "wf q' (xs @ [(fresh q, r)])" "MaxSize q' = MaxSize q"
    by blast
  from q'(2) xs(2) have "holds q' (ps @ [r])"
    by (auto simp: holds_def)
  with q' show ?thesis by blast
qed

lemma holds_Get:
  assumes "holds q (r # ps)"
  shows "\<exists>q'. InMemoryQueueStorage_GetRequest q = Inr ((r, None), q') \<and>
           holds q' ps \<and> MaxSize q' = MaxSize q"
proof -
  from assms obtain a xs where xs: "wf q ((a, r) # xs)" "map snd xs = ps"
    by (auto simp: holds_def)
  from wf_Get [OF xs(1)] xs(2) show ?thesis
    by (auto simp: holds_def)
qed

lemma holds_Get_empty:
  "holds q [] \<Longrightarrow> InMemoryQueueStorage_GetRequest q = Inr ((None, None), q)"
  using wf_Get_empty by (auto simp: holds_def)

lemma holds_single: "holds q [r] \<Longrightarrow> first q \<noteq> None \<and> last_f q = first q"
  by (auto simp: holds_def wf_def)

lemma Add_keeps_first:
  "first q \<noteq> None \<Longrightarrow> InMemoryQueueStorage_AddRequest r q = Inr (e, q') \<Longrightarrow>
   first q' = first q"
  by (auto simp: InMemoryQueueStorage_AddRequest_def Let_def split: option.splits if_splits)

section \<open>Sequences of calls keep the invariant\<close>

lemma add_all_holds:
  assumes "holds q ps" and "MaxSize q = k"
  shows "\<exists>q'. add_all rs q = Inr (replicate (length rs) None, q') \<and>
           holds q' (ps @ accepted k (length ps) rs) \<and> MaxSize q' = k"
  using assms
proof (induction rs arbitrary: q ps)
  case Nil
  then show ?case by (simp add: accepted_def)
next
  case (Cons r rs)
  show ?case
  proof (cases "MaxSize q > 0 \<and> size_f q \<ge> MaxSize q")
    case True
    with Cons.prems have full: "k > 0" "nat k - length ps = 0"
      by (auto simp: holds_size)
    from holds_Add_full [OF Cons.prems(1) True]
    have a: "InMemoryQueueStorage_AddRequest r q = Inr (None, q)" .
    from Cons.IH [OF Cons.prems] obtain q' where
      "add_all rs q = Inr (replicate (length rs) None, q')"
      "holds q' (ps @ accepted k (length ps) rs)" "MaxSize q' = k"
      by blast
    with a full show ?thesis by (simp add: accepted_def)
  next
    case False
    from holds_Add [OF Cons.prems(1) False, of r] obtain q1 where
      q1: "InMemoryQueueStorage_AddRequest r q = Inr (None, q1)"
        "holds q1 (ps @ [r])" "MaxSize q1 = MaxSize q"
      by blast
    from q1(3) Cons.prems(2) have "MaxSize q1 = k" by simp
    from Cons.IH [OF q1(2) this] obtain q' where
      q': "add_all rs q1 = Inr (replicate (length rs) None, q')"
        "holds q' ((ps @ [r]) @ accepted k (length (ps @ [r])) rs)" "MaxSize q' = k"
      by blast
    have "accepted k (length ps) (r # rs) = r # accepted k (length (ps @ [r])) rs"
    proof (cases "k > 0")
      case True
      with False Cons.prems have "length ps < nat k"
        by (auto simp: holds_size)
      then obtain m where "nat k - length ps = Suc m" "nat k - Suc (length ps) = m"
        by (metis Suc_diff_Suc)
      with True show ?thesis by (simp add: accepted_def)
    next
      case False
      then show ?thesis by (simp add: accepted_def)
    qed
    with q1 q' show ?thesis by simp
  qed
qed

lemma get_n_holds:
  assumes "holds q (ps @ rest)" and "n = length ps"
  shows "\<exists>q'. get_n n q = Inr (map (\<lambda>p. (p, None)) ps, q') \<and>
           holds q' rest \<and> MaxSize q' = MaxSize q"
  using assms
proof (induction ps arbitrary: q n)
  case Nil
  then show ?case by simp
next
  case (Cons p ps)
  from Cons.prems have "holds q (p # (ps @ rest))" by simp
  from holds_Get [OF this] obtain q1 where
    q1: "InMemoryQueueStorage_GetRequest q = Inr ((p, None), q1)"
      "holds q1 (ps @ rest)" "MaxSize q1 = MaxSize q"
    by blast
  from Cons.IH [OF q1(2) refl] q1 Cons.prems(2) show ?case by auto
qed

lemma run_holds:
  assumes "holds q ps"
  shows "\<exists>evs q' ps'. run ops q = Inr (evs, q') \<and> holds q' ps' \<and>
           MaxSize q' = MaxSize q \<and>
           int (length ps') = int (length ps) + appended evs - returned evs \<and>
           (MaxSize q \<le> 0 \<longrightarrow> Discarded \<notin> set evs)"
  using assms
proof (induction ops arbitrary: q ps)
  case Nil
  then show ?case by (auto simp: appended_def returned_def)
next
  case (Cons x ops)
  show ?case
  proof (cases x)
    case (Add r)
    show ?thesis
    proof (cases "MaxSize q > 0 \<and> size_f q \<ge> MaxSize q")
      case True
      from holds_Add_full [OF Cons.prems True]
      have a: "InMemoryQueueStorage_AddRequest r q = Inr (None, q)" .
      from Cons.IH [OF Cons.prems] obtain evs q' ps' where
        "run ops q = Inr (evs, q')" "holds q' ps'" "MaxSize q' = MaxSize q"
        "int (length ps') = int (length ps) + appended evs - returned evs"
        by blast
      with a True Add show ?thesis
        by (auto simp: appended_def returned_def)
    next
      case False
      from holds_Add [OF Cons.prems False, of r] obtain q1 where
        q1: "InMemoryQueueStorage_AddRequest r q = Inr (None, q1)"
          "holds q1 (ps @ [r])" "MaxSize q1 = MaxSize q"
        by blast
      from Cons.IH [OF q1(2)] obtain evs q' ps' where
        "run ops q1 = Inr (evs, q')" "holds q' ps'" "MaxSize q' = MaxSize q1"
        "int (length ps') = int (length (ps @ [r])) + appended evs - returned evs"
        "MaxSize q1 \<le> 0 \<longrightarrow> Discarded \<notin> set evs"
        by blast
      with q1 False Add show ?thesis
        by (auto simp: appended_def returned_def)
    qed
  next
    case Get
    show ?thesis
    proof (cases ps)
      case Nil
      with Cons.prems have e: "InMemoryQueueStorage_GetRequest q = Inr ((None, None), q)"
        and s: "size_f q = 0"
        by (auto simp: holds_Get_empty holds_size)
      from Cons.IH [OF Cons.prems] obtain evs q' ps' where
        "run ops q = Inr (evs, q')" "holds q' ps'" "MaxSize q' = MaxSize q"
        "int (length ps') = int (length ps) + appended evs - returned evs"
        "MaxSize q \<le> 0 \<longrightarrow> Discarded \<notin> set evs"
        by blast
      with e s Get show ?thesis
        by (auto simp: appended_def returned_def)
    next
      case (Cons p ps0)
      with Cons.prems have h: "holds q (p # ps0)" by simp
      then have s: "size_f q \<noteq> 0" by (simp add: holds_size)
      from holds_Get [OF h] obtain q1 where
        q1: "InMemoryQueueStorage_GetRequest q = Inr ((p, None), q1)"
          "holds q1 ps0" "MaxSize q1 = MaxSize q"
        by blast
      from Cons.IH [OF q1(2)] obtain evs q' ps' where
        "run ops q1 = Inr (evs, q')" "holds q' ps'" "MaxSize q' = MaxSize q1"
        "int (length ps') = int (length ps0) + appended evs - returned evs"
        "MaxSize q1 \<le> 0 \<longrightarrow> Discarded \<notin> set evs"
        by blast
      with q1 s Get Cons show ?thesis
        by (auto simp: appended_def returned_def)
    qed
  qed
qed

section \<open>Claims about the in-memory storage\<close>

lemma Init_literal:
  "InMemoryQueueStorage_Init (InMemoryQueueStorage_literal k) = Inr (None, new_storage k)"
  by (simp add: InMemoryQueueStorage_Init_def new_storage_def)

lemma reachable_holds:
  assumes "run ops (new_storage k) = Inr (evs, q)"
  shows "\<exists>ps. holds q ps \<and> MaxSize q = k"
  using run_holds [of "new_storage k" "[]" ops, OF holds_new] assms
  by (auto simp: MaxSize_new)

text \<open>
  Claim C1. Take any storage reached from the literal and \<^verbatim>\<open>Init\<close> by calls of
  \<^verbatim>\<open>AddRequest\<close> and \<^verbatim>\<open>GetRequest\<close> and now empty (the fresh storage is one), and
  payloads \<open>xs\<close> that fit its capacity. Then the calls of \<^verbatim>\<open>AddRequest\<close> for \<open>xs\<close> all
  return the nil error, the next \<open>length xs\<close> calls of \<^verbatim>\<open>GetRequest\<close> return exactly \<open>xs\<close>,
  in this order and each with the nil error, and one more call finds the storage empty.
\<close>

theorem fifo_order:
  assumes "run ops (new_storage k) = Inr (evs, q0)" and "size_f q0 = 0"
    and "k \<le> 0 \<or> int (length xs) \<le> k"
  shows "\<exists>q1 q2. add_all xs q0 = Inr (replicate (length xs) None, q1) \<and>
           get_n (length xs) q1 = Inr (map (\<lambda>x. (x, None)) xs, q2) \<and>
           InMemoryQueueStorage_GetRequest q2 = Inr ((None, None), q2)"
proof -
  from reachable_holds [OF assms(1)] obtain ps where
    h: "holds q0 ps" "MaxSize q0 = k"
    by blast
  from assms(2) holds_size [OF h(1)] have "ps = []" by simp
  with h(1) have h0: "holds q0 []" by simp
  from assms(3) have acc: "accepted k 0 xs = xs"
    by (auto simp: accepted_def)
  from add_all_holds [of q0 "[]" k xs, OF h0 h(2)] acc obtain q1 where
    q1: "add_all xs q0 = Inr (replicate (length xs) None, q1)"
      "holds q1 (xs @ [])"
    by auto
  from get_n_holds [OF q1(2) refl] obtain q2 where
    q2: "get_n (length xs) q1 = Inr (map (\<lambda>x. (x, None)) xs, q2)" "holds q2 []"
    by blast
  from q1(1) q2(1) holds_Get_empty [OF q2(2)] show ?thesis by blast
qed

theorem fifo_order_witness:
  "run [Add (Some [7]), Get] (new_storage 3) =
     Inr ([Appended, Returned (Some [7])],
          \<lparr>MaxSize = 3, lock = Some RWMutex, size_f = 0, first = None, last_f = Some 0,
           nodes = [0 \<mapsto> \<lparr>Request = Some [7], Next = None\<rparr>], fresh = Suc 0\<rparr>) \<and>
   ((3::int) \<le> 0 \<or> int (length [Some [1, 2], None, Some [] :: bytes]) \<le> 3) \<and>
   (\<exists>q1 q2.
      add_all [Some [1, 2], None, Some []]
        \<lparr>MaxSize = 3, lock = Some RWMutex, size_f = 0, first = None, last_f = Some 0,
         nodes = [0 \<mapsto> \<lparr>Request = Some [7], Next = None\<rparr>], fresh = Suc 0\<rparr>
        = Inr ([None, None, None], q1) \<and>
      get_n 3 q1 = Inr ([(Some [1, 2], None), (None, None), (Some [], None)], q2) \<and>
      InMemoryQueueStorage_GetRequest q2 = Inr ((None, None), q2))"
proof -
  let ?q0 = "\<lparr>MaxSize = 3, lock = Some RWMutex, size_f = 0, first = None, last_f = Some 0,
           nodes = [0 \<mapsto> \<lparr>Request = Some [7], Next = None\<rparr>], fresh = Suc 0\<rparr>"
  have r: "run [Add (Some [7]), Get] (new_storage 3) =
     Inr ([Appended, Returned (Some [7])], ?q0)"
    by (simp add: InMemoryQueueStorage_AddRequest_def InMemoryQueueStorage_GetRequest_def
        new_storage_def InMemoryQueueStorage_literal_def Let_def)
  have z: "size_f ?q0 = 0" by simp
  have c: "(3::int) \<le> 0 \<or> int (length [Some [1, 2], None, Some [] :: bytes]) \<le> 3"
    by simp
  have three: "length [Some [1, 2], None, Some [] :: bytes] = 3" by simp
  from fifo_order [OF r z c] have
    "\<exists>q1 q2.
      add_all [Some [1, 2], None, Some []] ?q0 = Inr ([None, None, None], q1) \<and>
      get_n 3 q1 = Inr ([(Some [1, 2], None), (None, None), (Some [], None)], q2) \<and>
      InMemoryQueueStorage_GetRequest q2 = Inr ((None, None), q2)"
    unfolding three by (simp add: numeral_3_eq_3)
  with r c show ?thesis by (intro conjI)
qed

text \<open>
  Claim C2. On a fresh storage with \<^verbatim>\<open>MaxSize\<close> \<open>k > 0\<close>, the calls of \<^verbatim>\<open>AddRequest\<close> for
  \<open>k + 5\<close> payloads all return the nil error; after them \<^verbatim>\<open>QueueSize\<close> returns \<open>k\<close>,
  the list holds the first \<open>k\<close> payloads, \<open>k\<close> calls of \<^verbatim>\<open>GetRequest\<close> return these, in
  order, and the next call finds the storage empty: the last five were dropped.
\<close>

theorem capacity_drop_newest:
  assumes "0 < k" and "length xs = nat k + 5"
  shows "\<exists>q q'. add_all xs (new_storage k) = Inr (replicate (nat k + 5) None, q) \<and>
           InMemoryQueueStorage_QueueSize q = Inr ((k, None), q) \<and>
           contents q = take (nat k) xs \<and>
           get_n (nat k) q = Inr (map (\<lambda>x. (x, None)) (take (nat k) xs), q') \<and>
           InMemoryQueueStorage_GetRequest q' = Inr ((None, None), q')"
proof -
  from assms have acc: "accepted k 0 xs = take (nat k) xs"
    by (simp add: accepted_def)
  from assms have len: "length (take (nat k) xs) = nat k" by simp
  from add_all_holds [of "new_storage k" "[]" k xs, OF holds_new MaxSize_new] acc assms(2) obtain q where
    q: "add_all xs (new_storage k) = Inr (replicate (nat k + 5) None, q)"
      "holds q (take (nat k) xs @ [])"
    by auto
  from q(2) have h: "holds q (take (nat k) xs)" by simp
  from holds_QueueSize [OF h] len assms(1)
  have s: "InMemoryQueueStorage_QueueSize q = Inr ((k, None), q)" by simp
  from get_n_holds [OF q(2) len [symmetric]] obtain q' where
    q': "get_n (nat k) q = Inr (map (\<lambda>x. (x, None)) (take (nat k) xs), q')" "holds q' []"
    by auto
  from q(1) s holds_contents [OF h] q'(1) holds_Get_empty [OF q'(2)] show ?thesis
    by blast
qed

theorem capacity_drop_newest_witness:
  "(0::int) < 1 \<and> length (map (\<lambda>n. Some [n]) [1, 2, 3, 4, 5, 6 :: byte]) = nat 1 + 5 \<and>
   (\<exists>q q'. add_all (map (\<lambda>n. Some [n]) [1, 2, 3, 4, 5, 6]) (new_storage 1) =
        Inr ([None, None, None, None, None, None], q) \<and>
      InMemoryQueueStorage_QueueSize q = Inr ((1, None), q) \<and>
      contents q = [Some [1]] \<and>
      get_n 1 q = Inr ([(Some [1], None)], q') \<and>
      InMemoryQueueStorage_GetRequest q' = Inr ((None, None), q'))"
  using capacity_drop_newest [of 1 "map (\<lambda>n. Some [n]) [1, 2, 3, 4, 5, 6]"]
  by (simp add: numeral_eq_Suc)

text \<open>
  Claim C4. After any sequence of calls of \<^verbatim>\<open>AddRequest\<close> and \<^verbatim>\<open>GetRequest\<close> on a fresh
  storage no call has panicked, and \<^verbatim>\<open>QueueSize\<close> returns the number of calls of
  \<^verbatim>\<open>AddRequest\<close> that appended minus the number of calls of \<^verbatim>\<open>GetRequest\<close> that returned
  an item, with the nil error. This number is not negative, and it is the number of
  payloads the list holds.
\<close>

theorem size_invariant:
  "\<exists>evs q. run ops (new_storage k) = Inr (evs, q) \<and>
     InMemoryQueueStorage_QueueSize q = Inr ((appended evs - returned evs, None), q) \<and>
     0 \<le> appended evs - returned evs \<and>
     appended evs - returned evs = int (length (contents q))"
proof -
  from run_holds [of "new_storage k" "[]" ops, OF holds_new] obtain evs q ps where
    r: "run ops (new_storage k) = Inr (evs, q)" "holds q ps"
      "int (length ps) = appended evs - returned evs"
    by auto
  from holds_QueueSize [OF r(2)] r(3) holds_contents [OF r(2)] r(1) show ?thesis
    by auto
qed

theorem size_invariant_witness:
  "\<exists>evs q. run [Add (Some [1]), Add (Some [2]), Add (Some [3]), Get, Get, Get, Get] (new_storage 2)
       = Inr (evs, q) \<and>
     evs = [Appended, Appended, Discarded, Returned (Some [1]), Returned (Some [2]), NoItem, NoItem] \<and>
     InMemoryQueueStorage_QueueSize q = Inr ((appended evs - returned evs, None), q) \<and>
     0 \<le> appended evs - returned evs \<and>
     appended evs - returned evs = int (length (contents q))"
proof -
  have e: "\<exists>q. run [Add (Some [1]), Add (Some [2]), Add (Some [3]), Get, Get, Get, Get] (new_storage 2)
       = Inr ([Appended, Appended, Discarded, Returned (Some [1]), Returned (Some [2]), NoItem, NoItem], q)"
    by (simp add: InMemoryQueueStorage_AddRequest_def InMemoryQueueStorage_GetRequest_def
        new_storage_def InMemoryQueueStorage_literal_def Let_def)
  then obtain q0 where
    e0: "run [Add (Some [1]), Add (Some [2]), Add (Some [3]), Get, Get, Get, Get] (new_storage 2)
       = Inr ([Appended, Appended, Discarded, Returned (Some [1]), Returned (Some [2]), NoItem, NoItem], q0)"
    by blast
  from size_invariant
      [of "[Add (Some [1]), Add (Some [2]), Add (Some [3]), Get, Get, Get, Get]" 2]
  obtain evs q where
    t: "run [Add (Some [1]), Add (Some [2]), Add (Some [3]), Get, Get, Get, Get] (new_storage 2)
       = Inr (evs, q)"
      "InMemoryQueueStorage_QueueSize q = Inr ((appended evs - returned evs, None), q)"
      "0 \<le> appended evs - returned evs"
      "appended evs - returned evs = int (length (contents q))"
    by blast
  from e0 t(1) have
    "evs = [Appended, Appended, Discarded, Returned (Some [1]), Returned (Some [2]), NoItem, NoItem]"
    by (simp only: sum.inject prod.inject)
  with t show ?thesis by blast
qed

text \<open>
  Claim C5. \<^verbatim>\<open>GetRequest\<close> on an initialised storage whose \<^verbatim>\<open>size\<close> is 0 returns the nil
  payload and the nil error, and the storage it leaves is the storage it found.
\<close>

theorem GetRequest_empty:
  assumes "lock q \<noteq> None" and "size_f q = 0"
  shows "InMemoryQueueStorage_GetRequest q = Inr ((None, None), q)"
  using assms by (auto simp: InMemoryQueueStorage_GetRequest_def)

theorem GetRequest_empty_witness:
  "lock (new_storage 3) \<noteq> None \<and> size_f (new_storage 3) = 0 \<and>
   InMemoryQueueStorage_GetRequest (new_storage 3) = Inr ((None, None), new_storage 3)"
proof -
  have l: "lock (new_storage 3) \<noteq> None"
    by (simp add: new_storage_def)
  have s: "size_f (new_storage 3) = 0"
    by (simp add: new_storage_def InMemoryQueueStorage_literal_def)
  show ?thesis
    using l s GetRequest_empty [OF l s] by simp
qed

text \<open>
  Claim C6. After any sequence of calls of \<^verbatim>\<open>AddRequest\<close> and \<^verbatim>\<open>GetRequest\<close> on a fresh
  storage, \<^verbatim>\<open>size\<close> is 0 exactly when \<^verbatim>\<open>first\<close> is nil. When the list is empty then,
  \<^verbatim>\<open>AddRequest\<close> makes \<^verbatim>\<open>first\<close> and \<^verbatim>\<open>last\<close> the one new node, and a second
  \<^verbatim>\<open>AddRequest\<close> (appending whenever the capacity is not 1) links its node behind it:
  \<^verbatim>\<open>first\<close> stays, the list holds the two payloads, and two calls of \<^verbatim>\<open>GetRequest\<close>
  return them in order.
\<close>

theorem head_nil_iff_size_zero:
  "\<exists>evs q. run ops (new_storage k) = Inr (evs, q) \<and>
     (size_f q = 0 \<longleftrightarrow> first q = None) \<and>
     (size_f q = 0 \<longrightarrow>
        (\<exists>q1. InMemoryQueueStorage_AddRequest a q = Inr (None, q1) \<and>
           size_f q1 = 1 \<and> first q1 \<noteq> None \<and> last_f q1 = first q1 \<and>
           contents q1 = [a] \<and>
           (k \<noteq> 1 \<longrightarrow>
              (\<exists>q2 q3. InMemoryQueueStorage_AddRequest b q1 = Inr (None, q2) \<and>
                 size_f q2 = 2 \<and> first q2 = first q1 \<and> contents q2 = [a, b] \<and>
                 get_n 2 q2 = Inr ([(a, None), (b, None)], q3)))))"
proof -
  from run_holds [of "new_storage k" "[]" ops, OF holds_new] obtain evs q ps where
    r: "run ops (new_storage k) = Inr (evs, q)" "holds q ps" "MaxSize q = k"
    by (auto simp: MaxSize_new)
  have inv: "size_f q = 0 \<longleftrightarrow> first q = None"
    using holds_size [OF r(2)] holds_first [OF r(2)] by simp
  have re: "\<exists>q1. InMemoryQueueStorage_AddRequest a q = Inr (None, q1) \<and>
           size_f q1 = 1 \<and> first q1 \<noteq> None \<and> last_f q1 = first q1 \<and>
           contents q1 = [a] \<and>
           (k \<noteq> 1 \<longrightarrow>
              (\<exists>q2 q3. InMemoryQueueStorage_AddRequest b q1 = Inr (None, q2) \<and>
                 size_f q2 = 2 \<and> first q2 = first q1 \<and> contents q2 = [a, b] \<and>
                 get_n 2 q2 = Inr ([(a, None), (b, None)], q3)))"
    if z: "size_f q = 0"
  proof -
    from z holds_size [OF r(2)] have ps: "ps = []" by simp
    from z have nf: "\<not> (MaxSize q > 0 \<and> size_f q \<ge> MaxSize q)" by simp
    from holds_Add [OF r(2) nf, of a] ps obtain q1 where
      q1: "InMemoryQueueStorage_AddRequest a q = Inr (None, q1)" "holds q1 [a]"
        "MaxSize q1 = MaxSize q"
      by auto
    have s1: "size_f q1 = 1" using holds_size [OF q1(2)] by simp
    note f1 = holds_single [OF q1(2)]
    have snd: "\<exists>q2 q3. InMemoryQueueStorage_AddRequest b q1 = Inr (None, q2) \<and>
                 size_f q2 = 2 \<and> first q2 = first q1 \<and> contents q2 = [a, b] \<and>
                 get_n 2 q2 = Inr ([(a, None), (b, None)], q3)"
      if k1: "k \<noteq> 1"
    proof -
      from k1 s1 q1(3) r(3) have nf1: "\<not> (MaxSize q1 > 0 \<and> size_f q1 \<ge> MaxSize q1)"
        by auto
      from holds_Add [OF q1(2) nf1, of b] obtain q2 where
        q2: "InMemoryQueueStorage_AddRequest b q1 = Inr (None, q2)" "holds q2 ([a] @ [b])"
        by auto
      from q2(2) have h2: "holds q2 ([a, b] @ [])" by simp
      have "2 = length [a, b]" by simp
      from get_n_holds [OF h2 this] obtain q3 where
        "get_n 2 q2 = Inr ([(a, None), (b, None)], q3)"
        by auto
      moreover from h2 have "size_f q2 = 2" "contents q2 = [a, b]"
        by (simp_all add: holds_size holds_contents)
      moreover from Add_keeps_first [OF _ q2(1)] f1 have "first q2 = first q1"
        by simp
      ultimately show ?thesis using q2(1) by blast
    qed
    from q1(1) s1 f1 holds_contents [OF q1(2)] snd show ?thesis
      by blast
  qed
  from re have re': "size_f q = 0 \<longrightarrow>
        (\<exists>q1. InMemoryQueueStorage_AddRequest a q = Inr (None, q1) \<and>
           size_f q1 = 1 \<and> first q1 \<noteq> None \<and> last_f q1 = first q1 \<and>
           contents q1 = [a] \<and>
           (k \<noteq> 1 \<longrightarrow>
              (\<exists>q2 q3. InMemoryQueueStorage_AddRequest b q1 = Inr (None, q2) \<and>
                 size_f q2 = 2 \<and> first q2 = first q1 \<and> contents q2 = [a, b] \<and>
                 get_n 2 q2 = Inr ([(a, None), (b, None)], q3))))"
    by (rule impI)
  from r(1) inv re' show ?thesis
    by (intro exI [of _ evs] exI [of _ q] conjI)
qed

theorem head_nil_iff_size_zero_witness:
  "\<exists>evs q. run [Add (Some [7]), Get] (new_storage 2) = Inr (evs, q) \<and>
     size_f q = 0 \<and> first q = None \<and>
     (\<exists>q1. InMemoryQueueStorage_AddRequest (Some [1]) q = Inr (None, q1) \<and>
        size_f q1 = 1 \<and> first q1 \<noteq> None \<and> last_f q1 = first q1 \<and>
        contents q1 = [Some [1]] \<and> (2::int) \<noteq> 1 \<and>
        (\<exists>q2 q3. InMemoryQueueStorage_AddRequest (Some [2]) q1 = Inr (None, q2) \<and>
           size_f q2 = 2 \<and> first q2 = first q1 \<and> contents q2 = [Some [1], Some [2]] \<and>
           get_n 2 q2 = Inr ([(Some [1], None), (Some [2], None)], q3)))"
proof -
  have e: "\<exists>evs q. run [Add (Some [7]), Get] (new_storage 2) = Inr (evs, q) \<and> size_f q = 0"
    by (simp add: InMemoryQueueStorage_AddRequest_def InMemoryQueueStorage_GetRequest_def
        new_storage_def InMemoryQueueStorage_literal_def Let_def)
  then obtain evs0 q0 where
    e0: "run [Add (Some [7]), Get] (new_storage 2) = Inr (evs0, q0)" "size_f q0 = 0"
    by blast
  from head_nil_iff_size_zero [of "[Add (Some [7]), Get]" 2 "Some [1]" "Some [2]"]
  obtain evs q where
    t: "run [Add (Some [7]), Get] (new_storage 2) = Inr (evs, q)"
      "size_f q = 0 \<longleftrightarrow> first q = None"
      "size_f q = 0 \<longrightarrow>
        (\<exists>q1. InMemoryQueueStorage_AddRequest (Some [1]) q = Inr (None, q1) \<and>
           size_f q1 = 1 \<and> first q1 \<noteq> None \<and> last_f q1 = first q1 \<and>
           contents q1 = [Some [1]] \<and>
           ((2::int) \<noteq> 1 \<longrightarrow>
              (\<exists>q2 q3. InMemoryQueueStorage_AddRequest (Some [2]) q1 = Inr (None, q2) \<and>
                 size_f q2 = 2 \<and> first q2 = first q1 \<and> contents q2 = [Some [1], Some [2]] \<and>
                 get_n 2 q2 = Inr ([(Some [1], None), (Some [2], None)], q3))))"
    by (elim exE conjE)
  from e0(1) t(1) have "q = q0" by (simp only: sum.inject prod.inject)
  with e0(2) have z: "size_f q = 0" by simp
  have two: "(2::int) \<noteq> 1" by simp
  from t(2) z have f: "first q = None" by (rule iffD1)
  from t(3) z have "\<exists>q1. InMemoryQueueStorage_AddRequest (Some [1]) q = Inr (None, q1) \<and>
           size_f q1 = 1 \<and> first q1 \<noteq> None \<and> last_f q1 = first q1 \<and>
           contents q1 = [Some [1]] \<and>
           ((2::int) \<noteq> 1 \<longrightarrow>
              (\<exists>q2 q3. InMemoryQueueStorage_AddRequest (Some [2]) q1 = Inr (None, q2) \<and>
                 size_f q2 = 2 \<and> first q2 = first q1 \<and> contents q2 = [Some [1], Some [2]] \<and>
                 get_n 2 q2 = Inr ([(Some [1], None), (Some [2], None)], q3)))"
    by (rule mp)
  then obtain q1 where
    q1: "InMemoryQueueStorage_AddRequest (Some [1]) q = Inr (None, q1)"
      "size_f q1 = 1" "first q1 \<noteq> None" "last_f q1 = first q1" "contents q1 = [Some [1]]"
      "(2::int) \<noteq> 1 \<longrightarrow>
              (\<exists>q2 q3. InMemoryQueueStorage_AddRequest (Some [2]) q1 = Inr (None, q2) \<and>
                 size_f q2 = 2 \<and> first q2 = first q1 \<and> contents q2 = [Some [1], Some [2]] \<and>
                 get_n 2 q2 = Inr ([(Some [1], None), (Some [2], None)], q3))"
    by (elim exE conjE)
  from q1(6) two have l: "\<exists>q2 q3. InMemoryQueueStorage_AddRequest (Some [2]) q1 = Inr (None, q2) \<and>
                 size_f q2 = 2 \<and> first q2 = first q1 \<and> contents q2 = [Some [1], Some [2]] \<and>
                 get_n 2 q2 = Inr ([(Some [1], None), (Some [2], None)], q3)"
    by (rule mp)
  from q1(1-5) two l have
    "InMemoryQueueStorage_AddRequest (Some [1]) q = Inr (None, q1) \<and>
        size_f q1 = 1 \<and> first q1 \<noteq> None \<and> last_f q1 = first q1 \<and>
        contents q1 = [Some [1]] \<and> (2::int) \<noteq> 1 \<and>
        (\<exists>q2 q3. InMemoryQueueStorage_AddRequest (Some [2]) q1 = Inr (None, q2) \<and>
           size_f q2 = 2 \<and> first q2 = first q1 \<and> contents q2 = [Some [1], Some [2]] \<and>
           get_n 2 q2 = Inr ([(Some [1], None), (Some [2], None)], q3))"
    by (intro conjI)
  then have inner: "\<exists>q1. InMemoryQueueStorage_AddRequest (Some [1]) q = Inr (None, q1) \<and>
        size_f q1 = 1 \<and> first q1 \<noteq> None \<and> last_f q1 = first q1 \<and>
        contents q1 = [Some [1]] \<and> (2::int) \<noteq> 1 \<and>
        (\<exists>q2 q3. InMemoryQueueStorage_AddRequest (Some [2]) q1 = Inr (None, q2) \<and>
           size_f q2 = 2 \<and> first q2 = first q1 \<and> contents q2 = [Some [1], Some [2]] \<and>
           get_n 2 q2 = Inr ([(Some [1], None), (Some [2], None)], q3))"
    by (rule exI)
  from t(1) z f inner have
    "run [Add (Some [7]), Get] (new_storage 2) = Inr (evs, q) \<and>
     size_f q = 0 \<and> first q = None \<and>
     (\<exists>q1. InMemoryQueueStorage_AddRequest (Some [1]) q = Inr (None, q1) \<and>
        size_f q1 = 1 \<and> first q1 \<noteq> None \<and> last_f q1 = first q1 \<and>
        contents q1 = [Some [1]] \<and> (2::int) \<noteq> 1 \<and>
        (\<exists>q2 q3. InMemoryQueueStorage_AddRequest (Some [2]) q1 = Inr (None, q2) \<and>
           size_f q2 = 2 \<and> first q2 = first q1 \<and> contents q2 = [Some [1], Some [2]] \<and>
           get_n 2 q2 = Inr ([(Some [1], None), (Some [2], None)], q3)))"
    by (intro conjI)
  then show ?thesis
    by (insert, rule_tac x = evs in exI, rule_tac x = q in exI)
qed

text \<open>
  Claim C10. With \<^verbatim>\<open>MaxSize\<close> zero or negative no call of \<^verbatim>\<open>AddRequest\<close> is ever
  discarded: after any sequence of calls on a fresh storage, every \<^verbatim>\<open>AddRequest\<close> so far
  has appended, and the next one returns the nil error, puts its payload at the end of
  the list and raises what \<^verbatim>\<open>QueueSize\<close> returns by one, whatever the size.
\<close>

theorem unbounded_when_MaxSize_not_positive:
  assumes "k \<le> 0"
  shows "\<exists>evs q q'. run ops (new_storage k) = Inr (evs, q) \<and> Discarded \<notin> set evs \<and>
           InMemoryQueueStorage_AddRequest r q = Inr (None, q') \<and>
           contents q' = contents q @ [r] \<and>
           InMemoryQueueStorage_QueueSize q' = Inr ((size_f q + 1, None), q')"
proof -
  from run_holds [of "new_storage k" "[]" ops, OF holds_new] assms obtain evs q ps where
    r: "run ops (new_storage k) = Inr (evs, q)" "holds q ps" "MaxSize q = k"
      "Discarded \<notin> set evs"
    by (auto simp: MaxSize_new)
  from assms r(3) have nf: "\<not> (MaxSize q > 0 \<and> size_f q \<ge> MaxSize q)" by simp
  from holds_Add [OF r(2) nf, of r] obtain q' where
    q': "InMemoryQueueStorage_AddRequest r q = Inr (None, q')" "holds q' (ps @ [r])"
    by auto
  from holds_QueueSize [OF q'(2)] holds_size [OF r(2)]
  have "InMemoryQueueStorage_QueueSize q' = Inr ((size_f q + 1, None), q')"
    by simp
  with r(1,4) q'(1) holds_contents [OF q'(2)] holds_contents [OF r(2)] show ?thesis
    by auto
qed

theorem unbounded_when_MaxSize_not_positive_witness:
  "(-1::int) \<le> 0 \<and>
   (\<exists>evs q q'. run [Add (Some [1]), Add (Some [2]), Get, Add None] (new_storage (-1)) = Inr (evs, q) \<and>
      Discarded \<notin> set evs \<and>
      InMemoryQueueStorage_AddRequest (Some [3]) q = Inr (None, q') \<and>
      contents q' = contents q @ [Some [3]] \<and>
      InMemoryQueueStorage_QueueSize q' = Inr ((size_f q + 1, None), q'))"
  using unbounded_when_MaxSize_not_positive
    [of "-1" "[Add (Some [1]), Add (Some [2]), Get, Add None]" "Some [3]"]
  by simp

section \<open>Claims about the Queue\<close>

text \<open>
  Claim C7, as amended. \<^verbatim>\<open>IsEmpty\<close> returns whether the count that \<^verbatim>\<open>Size\<close> returns is
  0. It discards the error of \<^verbatim>\<open>Size\<close> and never looks at it, so an error counts as
  "empty" only when the count that comes with it is 0. (A panic of \<^verbatim>\<open>Size\<close> is a panic of
  \<^verbatim>\<open>IsEmpty\<close>.)
\<close>

theorem IsEmpty_is_count_zero:
  "IsEmpty q = (case Size q of Inl p \<Rightarrow> Inl p | Inr ((n, e), q') \<Rightarrow> Inr (n = 0, q'))"
  by (simp add: IsEmpty_def)

theorem IsEmpty_is_count_zero_witness:
  "Size \<lparr>Threads = 2, storage = InMemory (new_storage 100000) :: unit Storage,
         activeThreadCount = 0, requestsOut = Some \<lparr>closed = False\<rparr>\<rparr>
     = Inr ((0, None),
            \<lparr>Threads = 2, storage = InMemory (new_storage 100000),
             activeThreadCount = 0, requestsOut = Some \<lparr>closed = False\<rparr>\<rparr>) \<and>
   IsEmpty \<lparr>Threads = 2, storage = InMemory (new_storage 100000) :: unit Storage,
            activeThreadCount = 0, requestsOut = Some \<lparr>closed = False\<rparr>\<rparr>
     = Inr (True,
            \<lparr>Threads = 2, storage = InMemory (new_storage 100000),
             activeThreadCount = 0, requestsOut = Some \<lparr>closed = False\<rparr>\<rparr>)"
proof -
  let ?q = "\<lparr>Threads = 2, storage = InMemory (new_storage 100000) :: unit Storage,
         activeThreadCount = 0, requestsOut = Some \<lparr>closed = False\<rparr>\<rparr>"
  have s: "Size ?q = Inr ((0, None), ?q)"
    by (simp add: Size_def Storage_QueueSize_def returning_def
        InMemoryQueueStorage_QueueSize_def new_storage_def InMemoryQueueStorage_literal_def)
  from IsEmpty_is_count_zero [of ?q] s have "IsEmpty ?q = Inr (True, ?q)"
    by simp
  with s show ?thesis by (intro conjI)
qed

text \<open>
  Claim C7 as stated fails: on a queue over the backend \<open>unavailable\<close>, \<^verbatim>\<open>Size\<close> returns
  the count 5 with an error, and \<^verbatim>\<open>IsEmpty\<close> returns false.
\<close>

theorem IsEmpty_false_on_Size_error:
  "Size \<lparr>Threads = 1, storage = External unavailable (), activeThreadCount = 0,
         requestsOut = Some \<lparr>closed = False\<rparr>\<rparr>
     = Inr ((5, Some (Error ''unavailable'')),
            \<lparr>Threads = 1, storage = External unavailable (), activeThreadCount = 0,
             requestsOut = Some \<lparr>closed = False\<rparr>\<rparr>) \<and>
   IsEmpty \<lparr>Threads = 1, storage = External unavailable (), activeThreadCount = 0,
            requestsOut = Some \<lparr>closed = False\<rparr>\<rparr>
     = Inr (False,
            \<lparr>Threads = 1, storage = External unavailable (), activeThreadCount = 0,
             requestsOut = Some \<lparr>closed = False\<rparr>\<rparr>)"
  by (simp add: IsEmpty_def Size_def Storage_QueueSize_def returning_def unavailable_def)

text \<open>
  Claim C8. \<^verbatim>\<open>New\<close> with the nil storage returns, with the nil error, a queue over the
  in-memory storage of \<^verbatim>\<open>MaxSize\<close> 100000, initialised, with the counter 0 and an open
  channel. With a storage \<open>s\<close> it calls \<^verbatim>\<open>Init\<close> on \<open>s\<close>: when \<^verbatim>\<open>Init\<close> returns an error,
  \<^verbatim>\<open>New\<close> returns that error and the nil queue; when \<^verbatim>\<open>Init\<close> returns the nil error,
  \<^verbatim>\<open>New\<close> returns the queue over the initialised storage, with the given \<^verbatim>\<open>Threads\<close>,
  the counter 0 and an open channel; when \<^verbatim>\<open>Init\<close> panics, so does \<^verbatim>\<open>New\<close>.
\<close>

theorem New_default_and_Init:
  "New threads (None :: 's Storage option) =
     Inr (Some \<lparr>Threads = threads, storage = InMemory (new_storage 100000),
                activeThreadCount = 0, requestsOut = Some \<lparr>closed = False\<rparr>\<rparr>, None) \<and>
   MaxSize (new_storage 100000) = 100000 \<and>
   (\<forall>err s'. Storage_Init s = Inr (Some err, s') \<longrightarrow>
      New threads (Some s) = Inr (None, Some err)) \<and>
   (\<forall>s'. Storage_Init s = Inr (None, s') \<longrightarrow>
      New threads (Some s) =
        Inr (Some \<lparr>Threads = threads, storage = s', activeThreadCount = 0,
                   requestsOut = Some \<lparr>closed = False\<rparr>\<rparr>, None)) \<and>
   (\<forall>p. Storage_Init s = Inl p \<longrightarrow> New threads (Some (s :: 's Storage)) = Inl p)"
  by (simp add: New_def Storage_Init_def returning_def Init_literal MaxSize_new)

theorem New_default_and_Init_witness:
  "New 4 (None :: unit Storage option) =
     Inr (Some \<lparr>Threads = 4, storage = InMemory (new_storage 100000),
                activeThreadCount = 0, requestsOut = Some \<lparr>closed = False\<rparr>\<rparr>, None) \<and>
   Storage_Init (External unavailable ()) =
     Inr (Some (Error ''unavailable''), External unavailable ()) \<and>
   New 4 (Some (External unavailable ())) = Inr (None, Some (Error ''unavailable'')) \<and>
   Storage_Init (InMemory (InMemoryQueueStorage_literal 7) :: unit Storage) =
     Inr (None, InMemory (new_storage 7)) \<and>
   New 4 (Some (InMemory (InMemoryQueueStorage_literal 7) :: unit Storage)) =
     Inr (Some \<lparr>Threads = 4, storage = InMemory (new_storage 7),
                activeThreadCount = 0, requestsOut = Some \<lparr>closed = False\<rparr>\<rparr>, None)"
proof -
  have a: "Storage_Init (External unavailable ()) =
     Inr (Some (Error ''unavailable''), External unavailable ())"
    by (simp add: Storage_Init_def returning_def unavailable_def)
  have b: "Storage_Init (InMemory (InMemoryQueueStorage_literal 7) :: unit Storage) =
     Inr (None, InMemory (new_storage 7))"
    by (simp add: Storage_Init_def returning_def Init_literal)
  from a b
    New_default_and_Init [where threads = 4 and s = "External unavailable ()"]
    New_default_and_Init
      [where threads = 4 and s = "InMemory (InMemoryQueueStorage_literal 7) :: unit Storage"]
  show ?thesis by simp
qed

text \<open>
  Claim C9. When \<^verbatim>\<open>url.Parse\<close> returns an error, \<^verbatim>\<open>AddURL\<close> returns that error and
  leaves the queue, and so its storage, as it was. Otherwise it builds the request with
  the parsed URL and the method GET and marshals it: when \<^verbatim>\<open>Marshal\<close> returns an error,
  \<^verbatim>\<open>AddURL\<close> returns that error and leaves the queue as it was; otherwise it passes the
  bytes to \<^verbatim>\<open>AddRequest\<close> of the storage and returns what that call returns, the
  storage being the one the call leaves.
\<close>

theorem AddURL_errors:
  "(\<forall>u err. url_Parse url = (u, Some err) \<longrightarrow>
      AddURL url_Parse Marshal url q = Inr (Some err, q)) \<and>
   (\<forall>u d err. url_Parse url = (u, None) \<longrightarrow>
      Marshal \<lparr>URL = u, Method = ''GET''\<rparr> = (d, Some err) \<longrightarrow>
      AddURL url_Parse Marshal url q = Inr (Some err, q)) \<and>
   (\<forall>u d. url_Parse url = (u, None) \<longrightarrow>
      Marshal \<lparr>URL = u, Method = ''GET''\<rparr> = (d, None) \<longrightarrow>
      AddURL url_Parse Marshal url q =
        (case Storage_AddRequest d (storage q) of
           Inl p \<Rightarrow> Inl p
         | Inr (e, s') \<Rightarrow> Inr (e, q\<lparr>storage := s'\<rparr>)))"
  by (simp add: AddURL_def returning_def)

theorem AddURL_errors_witness:
  "AddURL (\<lambda>s. if s = '':'' then (None, Some (Error ''missing protocol scheme''))
                else (Some s, None))
          (\<lambda>r. (Some [71, 69, 84], None)) '':''
          \<lparr>Threads = 2, storage = InMemory (new_storage 100000) :: unit Storage,
           activeThreadCount = 0, requestsOut = Some \<lparr>closed = False\<rparr>\<rparr>
     = Inr (Some (Error ''missing protocol scheme''),
            \<lparr>Threads = 2, storage = InMemory (new_storage 100000),
             activeThreadCount = 0, requestsOut = Some \<lparr>closed = False\<rparr>\<rparr>) \<and>
   AddURL (\<lambda>s. if s = '':'' then (None, Some (Error ''missing protocol scheme''))
                else (Some s, None))
          (\<lambda>r. (None, Some (Error ''cannot marshal''))) ''http://a''
          \<lparr>Threads = 2, storage = InMemory (new_storage 100000) :: unit Storage,
           activeThreadCount = 0, requestsOut = Some \<lparr>closed = False\<rparr>\<rparr>
     = Inr (Some (Error ''cannot marshal''),
            \<lparr>Threads = 2, storage = InMemory (new_storage 100000),
             activeThreadCount = 0, requestsOut = Some \<lparr>closed = False\<rparr>\<rparr>) \<and>
   AddURL (\<lambda>s. if s = '':'' then (None, Some (Error ''missing protocol scheme''))
                else (Some s, None))
          (\<lambda>r. (Some [71, 69, 84], None)) ''http://a''
          \<lparr>Threads = 2, storage = InMemory (new_storage 100000) :: unit Storage,
           activeThreadCount = 0, requestsOut = Some \<lparr>closed = False\<rparr>\<rparr>
     = Inr (None,
            \<lparr>Threads = 2,
             storage = InMemory
               \<lparr>MaxSize = 100000, lock = Some RWMutex, size_f = 1, first = Some 0,
                last_f = Some 0,
                nodes = [0 \<mapsto> \<lparr>Request = Some [71, 69, 84], Next = None\<rparr>],
                fresh = Suc 0\<rparr>,
             activeThreadCount = 0, requestsOut = Some \<lparr>closed = False\<rparr>\<rparr>)"
proof -
  let ?P = "\<lambda>s. if s = '':'' then (None, Some (Error ''missing protocol scheme''))
                else (Some s, None)"
  let ?q = "\<lparr>Threads = 2, storage = InMemory (new_storage 100000) :: unit Storage,
           activeThreadCount = 0, requestsOut = Some \<lparr>closed = False\<rparr>\<rparr>"
  have add: "Storage_AddRequest (Some [71, 69, 84]) (storage ?q) =
      Inr (None, InMemory
               \<lparr>MaxSize = 100000, lock = Some RWMutex, size_f = 1, first = Some 0,
                last_f = Some 0,
                nodes = [0 \<mapsto> \<lparr>Request = Some [71, 69, 84], Next = None\<rparr>],
                fresh = Suc 0\<rparr>)"
    by (simp add: Storage_AddRequest_def returning_def InMemoryQueueStorage_AddRequest_def
        new_storage_def InMemoryQueueStorage_literal_def Let_def)
  from add
    AddURL_errors [where url_Parse = ?P and url = "'':''" and q = ?q
      and Marshal = "\<lambda>r. (Some [71, 69, 84], None)"]
    AddURL_errors [where url_Parse = ?P and url = "''http://a''" and q = ?q
      and Marshal = "\<lambda>r. (None, Some (Error ''cannot marshal''))"]
    AddURL_errors [where url_Parse = ?P and url = "''http://a''" and q = ?q
      and Marshal = "\<lambda>r. (Some [71, 69, 84], None)"]
  show ?thesis by simp
qed

section \<open>The invariant of Run\<close>

lemma filter_update_count:
  "i < length xs \<Longrightarrow>
   length (filter P (xs[i := y])) + (if P (xs ! i) then 1 else 0) =
   length (filter P xs) + (if P y then 1 else 0)"
proof (induction xs arbitrary: i)
  case Nil
  then show ?case by simp
next
  case (Cons x xs)
  then show ?case by (cases i) auto
qed

lemma started_count_nonzero:
  assumes "\<exists>w \<in> set ws. started w" and "length ws < 2 ^ 32"
  shows "(of_nat (length (filter started ws)) :: 32 word) \<noteq> 0"
proof -
  from assms(1) have "filter started ws \<noteq> []"
    by (auto simp: filter_empty_conv)
  then have pos: "0 < length (filter started ws)" by simp
  have "length (filter started ws) \<le> length ws" by (rule length_filter_le)
  from this assms(2) have lt: "length (filter started ws) < 2 ^ 32" by (rule le_less_trans)
  show ?thesis
  proof
    assume "(of_nat (length (filter started ws)) :: 32 word) = 0"
    then have "2 ^ LENGTH(32) dvd length (filter started ws)"
      by (simp add: word_of_nat_eq_0_iff)
    with pos have "2 ^ LENGTH(32) \<le> length (filter started ws)"
      by (rule_tac dvd_imp_le) auto
    with lt show False by simp
  qed
qed

lemma IsEmpty_InMemory:
  assumes "storage q = InMemory st" and "holds st ps"
  shows "IsEmpty q = Inr (ps = [], q)"
proof -
  from holds_QueueSize [OF assms(2)]
  have "Storage_QueueSize (storage q) = Inr ((int (length ps), None), InMemory st)"
    by (simp add: Storage_QueueSize_def returning_def assms(1))
  moreover have "q\<lparr>storage := InMemory st\<rparr> = q"
    using assms(1) by (cases q) simp
  ultimately show ?thesis
    by (simp add: IsEmpty_def Size_def returning_def)
qed

lemma spinning_update_worker:
  assumes inv: "spinning U s" and i: "i < length (workers s)" and y: "started y"
    and st: "storage (queue s') = storage (queue s)"
    and ch: "requestsOut (queue s') = requestsOut (queue s)"
    and ws: "workers s' = (workers s)[i := y]"
    and cnt: "activeThreadCount (queue s') =
              activeThreadCount (queue s) + (if started (workers s ! i) then 0 else 1)"
    and d: "dispatcher s' = dispatcher s \<or> dispatcher s' = D_Loop"
  shows "spinning U s'"
proof -
  from inv obtain st0 ps where
    a: "storage (queue s) = InMemory st0" "holds st0 ps"
      "\<forall>p \<in> set ps. decodable U p"
      "case dispatcher s of
           D_Loop \<Rightarrow> ps = [] \<longrightarrow> (\<exists>w \<in> set (workers s). started w)
         | D_Empty \<Rightarrow> \<exists>w \<in> set (workers s). started w
         | D_Get \<Rightarrow> ps \<noteq> []
         | D_Send r \<Rightarrow> True
         | _ \<Rightarrow> False"
    and b: "requestsOut (queue s) = Some \<lparr>closed = False\<rparr>"
      "\<forall>w \<in> set (workers s). alive w"
      "activeThreadCount (queue s) = of_nat (length (filter started (workers s)))"
      "length (workers s) < 2 ^ 32"
    unfolding spinning_def by blast
  from i y ws have ex: "\<exists>w \<in> set (workers s'). started w"
    using set_update_memI by fastforce
  from y have "alive y" by (cases y) auto
  with b(2) ws have al: "\<forall>w \<in> set (workers s'). alive w"
    using set_update_subset_insert [of "workers s" i y] by auto
  from filter_update_count [OF i, of started y] y
  have "length (filter started (workers s')) =
        length (filter started (workers s)) + (if started (workers s ! i) then 0 else 1)"
    by (auto simp: ws split: if_splits)
  with cnt b(3) have c: "activeThreadCount (queue s') =
        of_nat (length (filter started (workers s')))"
    by (auto split: if_splits)
  have cl: "case dispatcher s' of
           D_Loop \<Rightarrow> ps = [] \<longrightarrow> (\<exists>w \<in> set (workers s'). started w)
         | D_Empty \<Rightarrow> \<exists>w \<in> set (workers s'). started w
         | D_Get \<Rightarrow> ps \<noteq> []
         | D_Send r \<Rightarrow> True
         | _ \<Rightarrow> False"
    using d a(4) ex by (cases "dispatcher s") auto
  from a(1-3) cl st ch b(1) al c b(4) ws show ?thesis
    unfolding spinning_def by auto
qed

lemma spinning_worker:
  assumes "spinning U s"
  shows "spinning U (worker_step i s)"
proof (cases "i < length (workers s)")
  case False
  with assms show ?thesis by (simp add: worker_step_def)
next
  case True
  from assms have ch: "requestsOut (queue s) = Some \<lparr>closed = False\<rparr>"
    and al: "\<forall>w \<in> set (workers s). alive w"
    unfolding spinning_def by blast+
  from al True have ali: "alive (workers s ! i)" by simp
  show ?thesis
  proof (cases "workers s ! i")
    case W_Start
    show ?thesis
      by (rule spinning_update_worker [OF assms True, of W_Range])
         (simp_all add: worker_step_def True W_Start)
  next
    case W_Range
    show ?thesis
    proof (cases "dispatcher s")
      case (D_Send r)
      show ?thesis
        by (rule spinning_update_worker [OF assms True, of "W_Do r"])
           (simp_all add: worker_step_def True W_Range ch D_Send)
    qed (use assms in \<open>simp_all add: worker_step_def True W_Range ch\<close>)
  next
    case (W_Do r)
    show ?thesis
      by (rule spinning_update_worker [OF assms True, of W_Range])
         (simp_all add: worker_step_def True W_Do)
  next
    case W_After
    with ali show ?thesis by simp
  next
    case W_Exit
    with ali show ?thesis by simp
  qed
qed

lemma spinning_dispatcher:
  assumes "spinning U s"
  shows "spinning U (dispatcher_step U s)"
proof -
  from assms obtain st ps where
    a: "storage (queue s) = InMemory st" "holds st ps"
      "\<forall>p \<in> set ps. decodable U p"
      "case dispatcher s of
           D_Loop \<Rightarrow> ps = [] \<longrightarrow> (\<exists>w \<in> set (workers s). started w)
         | D_Empty \<Rightarrow> \<exists>w \<in> set (workers s). started w
         | D_Get \<Rightarrow> ps \<noteq> []
         | D_Send r \<Rightarrow> True
         | _ \<Rightarrow> False"
    and b: "requestsOut (queue s) = Some \<lparr>closed = False\<rparr>"
      "\<forall>w \<in> set (workers s). alive w"
      "activeThreadCount (queue s) = of_nat (length (filter started (workers s)))"
      "length (workers s) < 2 ^ 32"
    unfolding spinning_def by blast
  show ?thesis
  proof (cases "dispatcher s")
    case D_Loop
    from IsEmpty_InMemory [OF a(1,2)]
    have "dispatcher_step U s = s\<lparr>dispatcher := (if ps = [] then D_Empty else D_Get)\<rparr>"
      by (simp add: dispatcher_step_def D_Loop)
    with a b D_Loop show ?thesis
      unfolding spinning_def by auto
  next
    case D_Empty
    with a(4) have "\<exists>w \<in> set (workers s). started w" by simp
    from started_count_nonzero [OF this b(4)] b(3)
    have "activeThreadCount (queue s) \<noteq> 0" by simp
    then have "dispatcher_step U s = s\<lparr>dispatcher := D_Loop\<rparr>"
      by (simp add: dispatcher_step_def D_Empty)
    with a b D_Empty show ?thesis
      unfolding spinning_def by auto
  next
    case D_Get
    with a(4) obtain p ps' where ps: "ps = p # ps'" by (cases ps) auto
    from holds_Get [of st p ps'] a(2) ps obtain st' where
      g: "InMemoryQueueStorage_GetRequest st = Inr ((p, None), st')" "holds st' ps'"
      by blast
    from a(3) ps obtain r where
      p: "p \<noteq> None" "U (copy_slice p) = (Some r, None)"
      by (auto simp: decodable_def)
    have "dispatcher_step U s =
          s\<lparr>queue := (queue s)\<lparr>storage := InMemory st'\<rparr>, dispatcher := D_Send r\<rparr>"
      using g(1) p
      by (simp add: dispatcher_step_def D_Get a(1) Storage_GetRequest_def returning_def
          Let_def)
    with a(3) ps g(2) b show ?thesis
      unfolding spinning_def by auto
  next
    case (D_Send r)
    with assms show ?thesis by (simp add: dispatcher_step_def)
  qed (use a(4) in simp_all)
qed

lemma spinning_step: "spinning U s \<Longrightarrow> spinning U (Run_step U g s)"
  by (cases g) (simp_all add: spinning_worker spinning_dispatcher)

lemma spinning_exec: "spinning U s \<Longrightarrow> spinning U (Run_exec U sched s)"
  unfolding Run_exec_def
  by (induction sched arbitrary: s) (simp_all add: spinning_step)

lemma spinning_not_returned:
  assumes "spinning U s"
  shows "\<not> Run_returned s \<and> requestsOut (queue s) = Some \<lparr>closed = False\<rparr>"
proof -
  from assms have "dispatcher s \<noteq> D_Exit"
    unfolding spinning_def by auto
  with assms show ?thesis
    unfolding spinning_def Run_returned_def by blast
qed

lemma spinning_init:
  assumes "n < 2 ^ 32" and "holds st ps" and "ps \<noteq> []"
    and "\<forall>p \<in> set ps. decodable U p"
  shows "spinning U (Run_init \<lparr>Threads = n, storage = InMemory st, activeThreadCount = 0,
                               requestsOut = Some \<lparr>closed = False\<rparr>\<rparr>)"
proof -
  have "filter started (replicate (nat n) W_Start) = []"
    by (simp add: filter_empty_conv)
  moreover from assms(1) have "nat n < 2 ^ 32" by simp
  ultimately show ?thesis
    using assms(2-4) unfolding spinning_def Run_init_def by auto
qed

section \<open>Claim about Run\<close>

text \<open>
  The model does let \<^verbatim>\<open>Run\<close> return: on an empty backlog, when the dispatcher takes its
  three steps before the one worker starts, it finds the counter 0 and closes the
  channel, and the worker then leaves its loop. When the worker starts first the
  dispatcher finds the counter 1, and goes round its loop.
\<close>

lemma Run_returns_on_empty_backlog:
  "Run_returned
     (Run_exec (\<lambda>b. (Some \<lparr>URL = Some b, Method = ''GET''\<rparr>, None))
        [Dispatcher, Dispatcher, Dispatcher, Worker 0, Worker 0, Worker 0]
        (Run_init \<lparr>Threads = 1, storage = InMemory (new_storage 100000) :: unit Storage,
                   activeThreadCount = 0, requestsOut = Some \<lparr>closed = False\<rparr>\<rparr>))"
  by (simp add: Run_returned_def Run_exec_def Run_init_def worker_step_def
      dispatcher_step_def IsEmpty_def Size_def Storage_QueueSize_def returning_def
      InMemoryQueueStorage_QueueSize_def new_storage_def InMemoryQueueStorage_literal_def
      finish_def)

lemma Run_loops_on_empty_backlog:
  "dispatcher
     (Run_exec (\<lambda>b. (Some \<lparr>URL = Some b, Method = ''GET''\<rparr>, None))
        [Worker 0, Dispatcher, Dispatcher]
        (Run_init \<lparr>Threads = 1, storage = InMemory (new_storage 100000) :: unit Storage,
                   activeThreadCount = 0, requestsOut = Some \<lparr>closed = False\<rparr>\<rparr>))
   = D_Loop"
  by (simp add: Run_exec_def Run_init_def worker_step_def
      dispatcher_step_def IsEmpty_def Size_def Storage_QueueSize_def returning_def
      InMemoryQueueStorage_QueueSize_def new_storage_def InMemoryQueueStorage_literal_def)

text \<open>
  Claim C3 says that \<^verbatim>\<open>Run\<close>, with at least one worker, an executor that enqueues
  nothing and a finite backlog, returns after executing every item once. The code does
  not: a worker increments \<^verbatim>\<open>activeThreadCount\<close> when it starts and decrements it only
  after its loop over the channel, which ends only when the channel is closed, and the
  dispatcher closes the channel only when it reads the counter as 0. So, under every
  schedule: after any number of steps of a \<^verbatim>\<open>Run\<close> with fewer than \<open>2^32\<close> workers on a
  queue whose backlog was filled by \<^verbatim>\<open>AddRequest\<close> with payloads \<open>xs\<close>, not empty, none
  nil and all decoded by \<^verbatim>\<open>UnmarshalRequest\<close>, \<^verbatim>\<open>Run\<close> has not returned.
\<close>

theorem Run_never_returns:
  assumes "n < 2 ^ 32"
    and "add_all xs (new_storage k) = Inr (es, st)"
    and "xs \<noteq> []"
    and "\<forall>x \<in> set xs. x \<noteq> None \<and> (\<exists>r. UnmarshalRequest (copy_slice x) = (Some r, None))"
  shows "\<not> Run_returned
           (Run_exec UnmarshalRequest sched
              (Run_init \<lparr>Threads = n, storage = InMemory st, activeThreadCount = 0,
                         requestsOut = Some \<lparr>closed = False\<rparr>\<rparr>))"
proof -
  from add_all_holds [of "new_storage k" "[]" k xs, OF holds_new MaxSize_new] assms(2)
  have h: "holds st (accepted k 0 xs)" by auto
  from assms(3) have ne: "accepted k 0 xs \<noteq> []"
    by (cases xs) (auto simp: accepted_def nat_eq_iff dest: gr0_implies_Suc)
  have "set (accepted k 0 xs) \<subseteq> set xs"
    by (auto simp: accepted_def dest: in_set_takeD)
  with assms(4) have de: "\<forall>p \<in> set (accepted k 0 xs). decodable UnmarshalRequest p"
    by (auto simp: decodable_def)
  from spinning_exec [OF spinning_init [OF assms(1) h ne de]] spinning_not_returned
  show ?thesis by blast
qed

theorem Run_never_returns_witness:
  "(1::int) < 2 ^ 32 \<and>
   add_all [Some [1]] (new_storage 100000) =
     Inr ([None],
          \<lparr>MaxSize = 100000, lock = Some RWMutex, size_f = 1, first = Some 0,
           last_f = Some 0, nodes = [0 \<mapsto> \<lparr>Request = Some [1], Next = None\<rparr>],
           fresh = Suc 0\<rparr>) \<and>
   [Some [1] :: bytes] \<noteq> [] \<and>
   (Some [1] :: bytes) \<noteq> None \<and>
   (\<lambda>b. (Some \<lparr>URL = Some b, Method = ''GET''\<rparr>, None :: error option))
      (copy_slice (Some [1])) = (Some \<lparr>URL = Some (Some [1]), Method = ''GET''\<rparr>, None) \<and>
   executed
     (Run_exec (\<lambda>b. (Some \<lparr>URL = Some b, Method = ''GET''\<rparr>, None))
        [Worker 0, Dispatcher, Dispatcher, Worker 0, Worker 0, Dispatcher, Dispatcher,
         Dispatcher, Dispatcher]
        (Run_init
           \<lparr>Threads = 1,
            storage = InMemory
              \<lparr>MaxSize = 100000, lock = Some RWMutex, size_f = 1, first = Some 0,
               last_f = Some 0, nodes = [0 \<mapsto> \<lparr>Request = Some [1], Next = None\<rparr>],
               fresh = Suc 0\<rparr> :: unit Storage,
            activeThreadCount = 0, requestsOut = Some \<lparr>closed = False\<rparr>\<rparr>))
     = [\<lparr>URL = Some (Some [1]), Method = ''GET''\<rparr>] \<and>
   \<not> Run_returned
     (Run_exec (\<lambda>b. (Some \<lparr>URL = Some b, Method = ''GET''\<rparr>, None))
        [Worker 0, Dispatcher, Dispatcher, Worker 0, Worker 0, Dispatcher, Dispatcher,
         Dispatcher, Dispatcher]
        (Run_init
           \<lparr>Threads = 1,
            storage = InMemory
              \<lparr>MaxSize = 100000, lock = Some RWMutex, size_f = 1, first = Some 0,
               last_f = Some 0, nodes = [0 \<mapsto> \<lparr>Request = Some [1], Next = None\<rparr>],
               fresh = Suc 0\<rparr> :: unit Storage,
            activeThreadCount = 0, requestsOut = Some \<lparr>closed = False\<rparr>\<rparr>))"
proof -
  let ?U = "\<lambda>b :: bytes. (Some \<lparr>URL = Some b, Method = ''GET''\<rparr>, None :: error option)"
  let ?st = "\<lparr>MaxSize = 100000, lock = Some RWMutex, size_f = 1, first = Some 0,
           last_f = Some 0, nodes = [0 \<mapsto> \<lparr>Request = Some [1], Next = None\<rparr>],
           fresh = Suc 0\<rparr>"
  let ?sched = "[Worker 0, Dispatcher, Dispatcher, Worker 0, Worker 0, Dispatcher, Dispatcher,
         Dispatcher, Dispatcher]"
  have n: "(1::int) < 2 ^ 32" by simp
  have a: "add_all [Some [1]] (new_storage 100000) = Inr ([None], ?st)"
    by (simp add: InMemoryQueueStorage_AddRequest_def new_storage_def
        InMemoryQueueStorage_literal_def Let_def)
  have ne: "[Some [1] :: bytes] \<noteq> []" by simp
  have u: "?U (copy_slice (Some [1])) = (Some \<lparr>URL = Some (Some [1]), Method = ''GET''\<rparr>, None)"
    by (simp add: copy_slice_def)
  have d: "\<forall>x \<in> set [Some [1] :: bytes]. x \<noteq> None \<and> (\<exists>r. ?U (copy_slice x) = (Some r, None))"
    by simp
  have e: "executed
     (Run_exec ?U ?sched
        (Run_init \<lparr>Threads = 1, storage = InMemory ?st :: unit Storage,
            activeThreadCount = 0, requestsOut = Some \<lparr>closed = False\<rparr>\<rparr>))
     = [\<lparr>URL = Some (Some [1]), Method = ''GET''\<rparr>]"
    by (simp add: Run_exec_def Run_init_def worker_step_def dispatcher_step_def
        IsEmpty_def Size_def Storage_QueueSize_def Storage_GetRequest_def returning_def
        InMemoryQueueStorage_QueueSize_def InMemoryQueueStorage_GetRequest_def
        copy_slice_def Let_def)
  note t = Run_never_returns [where UnmarshalRequest = ?U and sched = ?sched, OF n a ne d]
  from n a ne u e t show ?thesis by (intro conjI) simp_all
qed

end
